theory Spec2Isabelle
  imports Main "HOL-Library.Sublist"
begin

section \<open>Data model\<close>

text \<open>
  The repository holds two variants of one command-line tool: \<^verbatim>\<open>src/unnamed/part_000\<close>
  (with the Start action and \<^verbatim>\<open>removeWithRetries\<close>) and \<^verbatim>\<open>src/index.cjs\<close> (with the
  self-update, without Start, and with a single \<^verbatim>\<open>fs.remove\<close> in \<^verbatim>\<open>handleUninstall\<close>).
  \<^verbatim>\<open>fetchRepoFiles\<close>, \<^verbatim>\<open>downloadFile\<close>, \<^verbatim>\<open>installDependencies\<close> and \<^verbatim>\<open>handleDownload\<close>
  are the same text in both files. Definitions without a suffix follow
  \<^verbatim>\<open>part_000\<close>; the suffix \<open>_cjs\<close> marks what differs in \<^verbatim>\<open>index.cjs\<close>.

  A path is the list of its segments: \<^verbatim>\<open>"src/a.js"\<close> is \<open>[''src'', ''a.js'']\<close>.
  \<^verbatim>\<open>path.join\<close> is then append and \<^verbatim>\<open>path.dirname\<close> drops the last segment (no
  segment is \<^verbatim>\<open>.\<close> or \<^verbatim>\<open>..\<close>, which \<^verbatim>\<open>path.join\<close> would normalise away).
\<close>

type_synonym path = "string list"
type_synonym bytes = string

datatype node = File bytes | Dir

type_synonym filesystem = "path \<rightharpoonup> node"

text \<open>An entry of \<^verbatim>\<open>available.json\<close>: \<^verbatim>\<open>{name, repo, branch?, folder, startFile?}\<close>.\<close>

record item =
  name :: string
  repo :: string
  branch :: "string option"
  folder :: path
  startFile :: "path option"

text \<open>An element of \<^verbatim>\<open>response.data.tree\<close> of the tree listing.\<close>

record tree_entry =
  epath :: path
  etype :: string

text \<open>A thrown JavaScript \<^verbatim>\<open>Error\<close> with its \<^verbatim>\<open>message\<close>.\<close>

datatype js_error = Error (message: string)

type_synonym 'a result = "js_error + 'a"

text \<open>
  The lines printed by \<^verbatim>\<open>console.log\<close> and the questions asked by \<^verbatim>\<open>prompts\<close>, one
  constructor per call site (colours and glyphs left out).
\<close>

datatype msg =
    MsgDetectedPackageJson
  | MsgNpmFailed
  | MsgNpmComplete
  | MsgDownloading string
  | MsgDownloaded path
  | MsgErrorDownloading string string
  | MsgUninstalled string
  | MsgFailedUninstall string string
  | MsgNothingToUninstall
  | MsgUpdating string
  | MsgNotInstalled string
  | MsgStartFileNotFound path string
  | MsgLaunching string

datatype question = AskOverwrite string | AskUninstall string

text \<open>
  Everything the program does to the outside world, in the order it does it. A call of
  \<^verbatim>\<open>fs.ensureDir\<close> or \<^verbatim>\<open>fs.writeFile\<close> that throws is recorded as \<open>EnsureDirFailed\<close> or
  \<open>WriteFileFailed\<close>; \<open>EnsureDir\<close> and \<open>WriteFile\<close> are the calls that went through.
\<close>

datatype event =
    Get string
  | Delay nat
  | EnsureDir path
  | EnsureDirFailed path
  | WriteFile path bytes
  | WriteFileFailed path
  | Remove path
  | Prompt question
  | Log msg
  | ExecNpm path
  | ExecStart path path
  | BarStart nat
  | BarUpdate nat
  | BarStop

text \<open>
  What one call of \<^verbatim>\<open>fs.remove\<close> does: it removes the whole subtree, or it throws after
  having deleted some of the entries below the folder (the folder itself is still there).
\<close>

datatype rm_outcome = Removed | RemoveFailed js_error "path set"

text \<open>
  The environment of one run. The \<open>n\<close>-th HTTP request, the \<open>n\<close>-th \<^verbatim>\<open>fs.remove\<close> and the
  \<open>n\<close>-th prompt get the answers listed here; \<open>disk_api\<close> says whether the disk refuses
  the \<open>n\<close>-th call of \<^verbatim>\<open>fs.ensureDir\<close> or \<^verbatim>\<open>fs.writeFile\<close> with an error of its own (no
  space, no permission), and \<open>disk_left\<close> how far that call got before it threw; \<open>npm\<close> is what \<^verbatim>\<open>npm install\<close> run in a folder does to the file
  system and whether \<^verbatim>\<open>exec\<close> reports an error; \<open>dirname\<close> is \<^verbatim>\<open>__dirname\<close>.
\<close>

record env =
  dirname :: path
  tree_api :: "nat \<Rightarrow> string \<Rightarrow> tree_entry list result"
  raw_api :: "nat \<Rightarrow> string \<Rightarrow> bytes result"
  rm_api :: "nat \<Rightarrow> path \<Rightarrow> rm_outcome"
  disk_api :: "nat \<Rightarrow> path \<Rightarrow> js_error option"
  disk_left :: "nat \<Rightarrow> path \<Rightarrow> nat"
  answers :: "nat \<Rightarrow> bool"
  npm :: "path \<Rightarrow> filesystem \<Rightarrow> bool \<times> filesystem"

record state =
  fs :: filesystem
  trace :: "event list"
  reqs :: nat
  rms :: nat
  wrs :: nat
  asked :: nat

section \<open>Library calls\<close>

definition path_join :: "path \<Rightarrow> path \<Rightarrow> path" where
  "path_join a b = a @ b"

definition path_dirname :: "path \<Rightarrow> path" where
  "path_dirname p = butlast p"

text \<open>The string form of a path of the tree listing, as it goes into a URL.\<close>

fun path_str :: "path \<Rightarrow> string" where
  "path_str [] = []"
| "path_str [x] = x"
| "path_str (x # y # ys) = x @ ''/'' @ path_str (y # ys)"

definition emit :: "event \<Rightarrow> state \<Rightarrow> state" where
  "emit e s = s\<lparr>trace := trace s @ [e]\<rparr>"

definition console_log :: "msg \<Rightarrow> state \<Rightarrow> state" where
  "console_log m s = emit (Log m) s"

text \<open>\<^verbatim>\<open>await new Promise(res => setTimeout(res, ms))\<close>\<close>

definition sleep :: "nat \<Rightarrow> state \<Rightarrow> state" where
  "sleep ms s = emit (Delay ms) s"

text \<open>\<^verbatim>\<open>axios.get\<close> on the tree endpoint and on the raw-content endpoint.\<close>

definition axios_get_tree :: "env \<Rightarrow> string \<Rightarrow> state \<Rightarrow> tree_entry list result \<times> state" where
  "axios_get_tree E url s = (tree_api E (reqs s) url, emit (Get url) (s\<lparr>reqs := Suc (reqs s)\<rparr>))"

definition axios_get_raw :: "env \<Rightarrow> string \<Rightarrow> state \<Rightarrow> bytes result \<times> state" where
  "axios_get_raw E url s = (raw_api E (reqs s) url, emit (Get url) (s\<lparr>reqs := Suc (reqs s)\<rparr>))"

definition fs_existsSync :: "path \<Rightarrow> state \<Rightarrow> bool" where
  "fs_existsSync p s = (fs s p \<noteq> None)"

definition is_file :: "node option \<Rightarrow> bool" where
  "is_file x = (case x of Some (File c) \<Rightarrow> True | _ \<Rightarrow> False)"

text \<open>
  \<^verbatim>\<open>fs.ensureDir\<close> creates the missing directories of the chain, from the root down. It
  throws when a component of the chain is a file, and then nothing is created; and it
  throws when the disk refuses, having created the missing directories of the first
  \<open>disk_left\<close> levels.
\<close>

definition fs_ensureDir :: "env \<Rightarrow> path \<Rightarrow> state \<Rightarrow> unit result \<times> state" where
  "fs_ensureDir E d s =
     (let s1 = s\<lparr>wrs := Suc (wrs s)\<rparr> in
      if list_ex (\<lambda>q. is_file (fs s q)) (prefixes d) then
        (Inl (Error ''ENOTDIR''), emit (EnsureDirFailed d) s1)
      else
        (case disk_api E (wrs s) d of
           Some e \<Rightarrow>
             (Inl e, emit (EnsureDirFailed d)
                (s1\<lparr>fs := (\<lambda>q. if prefix q d \<and> fs s q = None \<and> length q < disk_left E (wrs s) d
                               then Some Dir else fs s q)\<rparr>))
         | None \<Rightarrow>
             (Inr (), emit (EnsureDir d)
                (s1\<lparr>fs := (\<lambda>q. if prefix q d \<and> fs s q = None then Some Dir else fs s q)\<rparr>))))"

text \<open>
  \<^verbatim>\<open>fs.writeFile\<close> stores the content. It throws when the path is a directory and when the
  parent is not a directory, and then nothing is stored; and it throws when the disk
  refuses: before the file is opened (\<open>disk_left\<close> is 0), or after it has been opened and
  truncated and \<open>disk_left - 1\<close> bytes of the content have been stored.
\<close>

definition fs_writeFile :: "env \<Rightarrow> path \<Rightarrow> bytes \<Rightarrow> state \<Rightarrow> unit result \<times> state" where
  "fs_writeFile E p c s =
     (let s1 = s\<lparr>wrs := Suc (wrs s)\<rparr> in
      if fs s p = Some Dir then (Inl (Error ''EISDIR''), emit (WriteFileFailed p) s1)
      else if fs s (path_dirname p) \<noteq> Some Dir then
        (Inl (Error ''ENOENT''), emit (WriteFileFailed p) s1)
      else
        (case disk_api E (wrs s) p of
           Some e \<Rightarrow>
             (Inl e, emit (WriteFileFailed p)
                (case disk_left E (wrs s) p of
                   0 \<Rightarrow> s1
                 | Suc n \<Rightarrow> s1\<lparr>fs := (fs s)(p \<mapsto> File (take n c))\<rparr>))
         | None \<Rightarrow> (Inr (), emit (WriteFile p c) (s1\<lparr>fs := (fs s)(p \<mapsto> File c)\<rparr>))))"

definition fs_remove :: "env \<Rightarrow> path \<Rightarrow> state \<Rightarrow> unit result \<times> state" where
  "fs_remove E p s =
     (let s1 = emit (Remove p) (s\<lparr>rms := Suc (rms s)\<rparr>) in
      case rm_api E (rms s) p of
        Removed \<Rightarrow> (Inr (), s1\<lparr>fs := (\<lambda>q. if prefix p q then None else fs s q)\<rparr>)
      | RemoveFailed e lost \<Rightarrow>
          (Inl e, s1\<lparr>fs := (\<lambda>q. if strict_prefix p q \<and> q \<in> lost then None else fs s q)\<rparr>))"

text \<open>A \<^verbatim>\<open>confirm\<close> prompt; a cancelled prompt yields \<^verbatim>\<open>undefined\<close>, which is falsy.\<close>

definition prompts_confirm :: "env \<Rightarrow> question \<Rightarrow> state \<Rightarrow> bool \<times> state" where
  "prompts_confirm E q s = (answers E (asked s), emit (Prompt q) (s\<lparr>asked := Suc (asked s)\<rparr>))"

section \<open>The program\<close>

text \<open>A parameter or field with the default \<^verbatim>\<open>branch = "main"\<close>.\<close>

definition default_branch :: "string option \<Rightarrow> string" where
  "default_branch b = (case b of None \<Rightarrow> ''main'' | Some x \<Rightarrow> x)"

definition apiUrl :: "string \<Rightarrow> string \<Rightarrow> string" where
  "apiUrl repo' branch' =
     ''https://api.github.com/repos/'' @ repo' @ ''/git/trees/'' @ branch' @ ''?recursive=1''"

text \<open>\<^verbatim>\<open>fetchRepoFiles(repo, branch = "main")\<close>\<close>

definition fetchRepoFiles :: "env \<Rightarrow> string \<Rightarrow> string option \<Rightarrow> state \<Rightarrow> tree_entry list result \<times> state" where
  "fetchRepoFiles E repo' branch' s =
     (case axios_get_tree E (apiUrl repo' (default_branch branch')) s of
        (Inl e, s1) \<Rightarrow> (Inl e, s1)
      | (Inr tree, s1) \<Rightarrow> (Inr (filter (\<lambda>file. etype file = ''blob'') tree), s1))"

definition rawUrl :: "string \<Rightarrow> string \<Rightarrow> path \<Rightarrow> string" where
  "rawUrl repo' branch' filePath =
     ''https://raw.githubusercontent.com/'' @ repo' @ ''/'' @ branch' @ ''/'' @ path_str filePath"

text \<open>
  The body of the \<^verbatim>\<open>try\<close> block of \<^verbatim>\<open>downloadFile\<close>: the request, \<^verbatim>\<open>ensureDir\<close> of the
  parent, \<^verbatim>\<open>writeFile\<close>. Whichever of the three throws ends the block.
\<close>

definition download_attempt :: "env \<Rightarrow> string \<Rightarrow> path \<Rightarrow> state \<Rightarrow> unit result \<times> state" where
  "download_attempt E url destPath s =
     (case axios_get_raw E url s of
        (Inl e, s1) \<Rightarrow> (Inl e, s1)
      | (Inr body, s1) \<Rightarrow>
          (case fs_ensureDir E (path_dirname destPath) s1 of
             (Inl e, s2) \<Rightarrow> (Inl e, s2)
           | (Inr u, s2) \<Rightarrow> fs_writeFile E destPath body s2))"

text \<open>
  \<^verbatim>\<open>downloadFile(repo, branch, filePath, destPath, retries = 3)\<close>: the loop
  \<^verbatim>\<open>for (let i = 0; i <= retries; i++)\<close> from the index \<open>i\<close> on. The \<^verbatim>\<open>catch\<close> takes no
  notice of what was thrown: a failed request and a failed local write are treated alike.
\<close>

function downloadFile_from ::
  "env \<Rightarrow> string \<Rightarrow> path \<Rightarrow> nat \<Rightarrow> nat \<Rightarrow> state \<Rightarrow> unit result \<times> state" where
  "downloadFile_from E url destPath retries i s =
     (if i \<le> retries then
        (case download_attempt E url destPath s of
           (Inr u, s1) \<Rightarrow> (Inr (), s1)
         | (Inl e, s1) \<Rightarrow>
             if i = retries then (Inl (Error ''Retry limit reached.''), s1)
             else downloadFile_from E url destPath retries (Suc i) (sleep 1000 s1))
      else (Inr (), s))"
  by pat_completeness auto
termination
  by (relation "measure (\<lambda>(E, url, destPath, retries, i, s). Suc retries - i)") auto

declare downloadFile_from.simps [simp del]

definition downloadFile ::
  "env \<Rightarrow> string \<Rightarrow> string \<Rightarrow> path \<Rightarrow> path \<Rightarrow> nat \<Rightarrow> state \<Rightarrow> unit result \<times> state" where
  "downloadFile E repo' branch' filePath destPath retries s =
     downloadFile_from E (rawUrl repo' branch' filePath) destPath retries 0 s"

text \<open>
  \<^verbatim>\<open>installDependencies(folder)\<close>: the promise resolves in the callback of \<^verbatim>\<open>exec\<close>, so
  the caller goes on after \<^verbatim>\<open>npm install\<close> has run.
\<close>

definition installDependencies :: "env \<Rightarrow> path \<Rightarrow> state \<Rightarrow> state" where
  "installDependencies E folder' s =
     (let pkgPath = path_join folder' [''package.json''] in
      if fs_existsSync pkgPath s then
        (let s1 = console_log MsgDetectedPackageJson s;
             r = npm E folder' (fs s1);
             s2 = emit (ExecNpm folder') (s1\<lparr>fs := snd r\<rparr>)
         in console_log (if fst r then MsgNpmFailed else MsgNpmComplete) s2)
      else s)"

definition branch_of :: "item \<Rightarrow> string" where
  "branch_of it = default_branch (branch it)"

text \<open>The loop \<^verbatim>\<open>for (let i = 0; i < files.length; i++)\<close> of \<^verbatim>\<open>handleDownload\<close>, from \<open>i\<close> on.\<close>

function download_loop ::
  "env \<Rightarrow> item \<Rightarrow> tree_entry list \<Rightarrow> nat \<Rightarrow> state \<Rightarrow> unit result \<times> state" where
  "download_loop E it files i s =
     (if i < length files then
        (let f = files ! i;
             localPath = path_join (path_join (dirname E) (folder it)) (epath f)
         in case downloadFile E (repo it) (branch_of it) (epath f) localPath 3 s of
              (Inl e, s1) \<Rightarrow> (Inl e, s1)
            | (Inr u, s1) \<Rightarrow> download_loop E it files (Suc i) (emit (BarUpdate (i + 1)) s1))
      else (Inr (), s))"
  by pat_completeness auto
termination
  by (relation "measure (\<lambda>(E, it, files, i, s). length files - i)") auto

declare download_loop.simps [simp del]

text \<open>The body of the \<^verbatim>\<open>try\<close> block of \<^verbatim>\<open>handleDownload\<close>.\<close>

definition download_try :: "env \<Rightarrow> item \<Rightarrow> state \<Rightarrow> unit result \<times> state" where
  "download_try E it s =
     (case fetchRepoFiles E (repo it) (Some (branch_of it)) s of
        (Inl e, s1) \<Rightarrow> (Inl e, s1)
      | (Inr files, s1) \<Rightarrow>
          (case download_loop E it files 0 (emit (BarStart (length files)) s1) of
             (Inl e, s2) \<Rightarrow> (Inl e, s2)
           | (Inr u, s2) \<Rightarrow>
               (Inr (), installDependencies E (path_join (dirname E) (folder it))
                          (console_log (MsgDownloaded (folder it)) (emit BarStop s2)))))"

text \<open>\<^verbatim>\<open>handleDownload\<close> from \<^verbatim>\<open>console.log("Downloading ...")\<close> on: the \<^verbatim>\<open>try\<close> with its \<^verbatim>\<open>catch\<close>.\<close>

definition materialize :: "env \<Rightarrow> item \<Rightarrow> state \<Rightarrow> state" where
  "materialize E it s =
     (case download_try E it (console_log (MsgDownloading (name it)) s) of
        (Inl err, s1) \<Rightarrow> console_log (MsgErrorDownloading (name it) (message err)) s1
      | (Inr u, s1) \<Rightarrow> s1)"

definition handleDownload :: "env \<Rightarrow> item \<Rightarrow> state \<Rightarrow> unit result \<times> state" where
  "handleDownload E it s =
     (let targetFolder = path_join (dirname E) (folder it) in
      if fs_existsSync targetFolder s then
        (case prompts_confirm E (AskOverwrite (name it)) s of
           (overwrite, s1) \<Rightarrow>
             if \<not> overwrite then (Inr (), s1)
             else (case fs_remove E targetFolder s1 of
                     (Inl e, s2) \<Rightarrow> (Inl e, s2)
                   | (Inr u, s2) \<Rightarrow> (Inr (), materialize E it s2)))
      else (Inr (), materialize E it s))"

text \<open>\<^verbatim>\<open>removeWithRetries(folder, retries = 5, delayMs = 500)\<close>, from the index \<open>i\<close> on.\<close>

function removeWithRetries_from ::
  "env \<Rightarrow> path \<Rightarrow> nat \<Rightarrow> nat \<Rightarrow> nat \<Rightarrow> state \<Rightarrow> unit result \<times> state" where
  "removeWithRetries_from E folder' retries delayMs i s =
     (if i < retries then
        (case fs_remove E folder' s of
           (Inr u, s1) \<Rightarrow> (Inr (), s1)
         | (Inl err, s1) \<Rightarrow>
             if i = retries - 1 then (Inl err, s1)
             else removeWithRetries_from E folder' retries delayMs (Suc i) (sleep delayMs s1))
      else (Inr (), s))"
  by pat_completeness auto
termination
  by (relation "measure (\<lambda>(E, folder', retries, delayMs, i, s). retries - i)") auto

declare removeWithRetries_from.simps [simp del]

definition removeWithRetries :: "env \<Rightarrow> path \<Rightarrow> nat \<Rightarrow> nat \<Rightarrow> state \<Rightarrow> unit result \<times> state" where
  "removeWithRetries E folder' retries delayMs s = removeWithRetries_from E folder' retries delayMs 0 s"

text \<open>\<^verbatim>\<open>handleUninstall\<close> of \<^verbatim>\<open>part_000\<close>: the failure of \<^verbatim>\<open>removeWithRetries\<close> is caught and logged.\<close>

definition handleUninstall :: "env \<Rightarrow> item \<Rightarrow> state \<Rightarrow> unit result \<times> state" where
  "handleUninstall E it s =
     (let fullPath = path_join (dirname E) (folder it) in
      if fs_existsSync fullPath s then
        (case prompts_confirm E (AskUninstall (name it)) s of
           (confirm, s1) \<Rightarrow>
             if confirm then
               (case removeWithRetries E fullPath 5 500 s1 of
                  (Inr u, s2) \<Rightarrow> (Inr (), console_log (MsgUninstalled (name it)) s2)
                | (Inl err, s2) \<Rightarrow>
                    (Inr (), console_log (MsgFailedUninstall (name it) (message err)) s2))
             else (Inr (), s1))
      else (Inr (), console_log MsgNothingToUninstall s))"

text \<open>\<^verbatim>\<open>handleUninstall\<close> of \<^verbatim>\<open>index.cjs\<close>: one \<^verbatim>\<open>fs.remove\<close>, whose failure propagates.\<close>

definition handleUninstall_cjs :: "env \<Rightarrow> item \<Rightarrow> state \<Rightarrow> unit result \<times> state" where
  "handleUninstall_cjs E it s =
     (let fullPath = path_join (dirname E) (folder it) in
      if fs_existsSync fullPath s then
        (case prompts_confirm E (AskUninstall (name it)) s of
           (confirm, s1) \<Rightarrow>
             if confirm then
               (case fs_remove E fullPath s1 of
                  (Inl err, s2) \<Rightarrow> (Inl err, s2)
                | (Inr u, s2) \<Rightarrow> (Inr (), console_log (MsgUninstalled (name it)) s2))
             else (Inr (), s1))
      else (Inr (), console_log MsgNothingToUninstall s))"

definition handleUpdate :: "env \<Rightarrow> item \<Rightarrow> state \<Rightarrow> unit result \<times> state" where
  "handleUpdate E it s =
     (case handleUninstall E it (console_log (MsgUpdating (name it)) s) of
        (Inl e, s1) \<Rightarrow> (Inl e, s1)
      | (Inr u, s1) \<Rightarrow> handleDownload E it s1)"

definition handleUpdate_cjs :: "env \<Rightarrow> item \<Rightarrow> state \<Rightarrow> unit result \<times> state" where
  "handleUpdate_cjs E it s =
     (case handleUninstall_cjs E it (console_log (MsgUpdating (name it)) s) of
        (Inl e, s1) \<Rightarrow> (Inl e, s1)
      | (Inr u, s1) \<Rightarrow> handleDownload E it s1)"

text \<open>
  \<^verbatim>\<open>startRepo\<close> (only in \<^verbatim>\<open>part_000\<close>). \<^verbatim>\<open>item.startFile || "index.js"\<close> takes the default
  for a missing field and for the empty string. \<^verbatim>\<open>exec\<close> is not awaited: the event
  \<open>ExecStart startPath repoFolder\<close> stands for \<^verbatim>\<open>start cmd /k node "<startPath>"\<close> run with
  \<^verbatim>\<open>cwd: repoFolder\<close>.
\<close>

definition startFile_or_default :: "item \<Rightarrow> path" where
  "startFile_or_default it =
     (case startFile it of None \<Rightarrow> [''index.js''] | Some p \<Rightarrow> if p = [] then [''index.js''] else p)"

definition startRepo :: "env \<Rightarrow> item \<Rightarrow> state \<Rightarrow> state" where
  "startRepo E it s =
     (let repoFolder = path_join (dirname E) (folder it) in
      if \<not> fs_existsSync repoFolder s then console_log (MsgNotInstalled (name it)) s
      else
        (let startFile' = startFile_or_default it;
             startPath = path_join repoFolder startFile'
         in if \<not> fs_existsSync startPath s then
              console_log (MsgStartFileNotFound startFile' (name it)) s
            else emit (ExecStart startPath repoFolder) (console_log (MsgLaunching (name it)) s)))"

section \<open>Observations\<close>

text \<open>The events a step added to the trace, and what they wrote, deleted and waited.\<close>

definition emitted :: "state \<Rightarrow> state \<Rightarrow> event list" where
  "emitted s s' = drop (length (trace s)) (trace s')"

fun written :: "event list \<Rightarrow> path list" where
  "written [] = []"
| "written (WriteFile p c # es) = p # written es"
| "written (e # es) = written es"

fun removed :: "event list \<Rightarrow> path list" where
  "removed [] = []"
| "removed (Remove p # es) = p # removed es"
| "removed (e # es) = removed es"

fun delays :: "event list \<Rightarrow> nat list" where
  "delays [] = []"
| "delays (Delay ms # es) = ms # delays es"
| "delays (e # es) = delays es"

fun requests :: "event list \<Rightarrow> string list" where
  "requests [] = []"
| "requests (Get url # es) = url # requests es"
| "requests (e # es) = requests es"

fun launches :: "event list \<Rightarrow> (path \<times> path) list" where
  "launches [] = []"
| "launches (ExecStart p d # es) = (p, d) # launches es"
| "launches (e # es) = launches es"

fun logged :: "event list \<Rightarrow> msg list" where
  "logged [] = []"
| "logged (Log m # es) = m # logged es"
| "logged (e # es) = logged es"

text \<open>The files below a folder, by their paths relative to it.\<close>

definition files_in :: "filesystem \<Rightarrow> path \<Rightarrow> path set" where
  "files_in f d = {p. \<exists>c. f (d @ p) = Some (File c)}"

text \<open>The file system after \<^verbatim>\<open>ensureDir\<close> of the parent of \<open>p\<close> and \<^verbatim>\<open>writeFile\<close> of \<open>p\<close>.\<close>

definition put_file :: "path \<Rightarrow> bytes \<Rightarrow> filesystem \<Rightarrow> filesystem" where
  "put_file p c f =
     (\<lambda>q. if prefix q (path_dirname p) \<and> f q = None then Some Dir else f q)(p \<mapsto> File c)"

text \<open>
  A destination that \<^verbatim>\<open>ensureDir\<close> of its parent and \<^verbatim>\<open>writeFile\<close> accept: no component of
  the parent chain is a file, and the path itself is no directory (nor the root).
\<close>

definition writable :: "filesystem \<Rightarrow> path \<Rightarrow> bool" where
  "writable f p =
     (p \<noteq> [] \<and> \<not> list_ex (\<lambda>q. is_file (f q)) (prefixes (path_dirname p)) \<and> f p \<noteq> Some Dir)"

text \<open>Two file systems with the same files; they may differ in their directories.\<close>

definition same_files :: "filesystem \<Rightarrow> filesystem \<Rightarrow> bool" where
  "same_files f f' = (\<forall>q c. f' q = Some (File c) \<longleftrightarrow> f q = Some (File c))"

text \<open>The same, but for what is at the path \<open>p\<close>.\<close>

definition same_files_but :: "path \<Rightarrow> filesystem \<Rightarrow> filesystem \<Rightarrow> bool" where
  "same_files_but p f f' = (\<forall>q c. q = p \<or> (f' q = Some (File c) \<longleftrightarrow> f q = Some (File c)))"

text \<open>
  How a folder stands while the listed paths \<open>W\<close> have been written below it, into nothing:
  the files below it are among \<open>W\<close>, the directories below it lead to a path of \<open>W\<close>, and
  no ancestor of the folder is a file.
\<close>

definition filled :: "path \<Rightarrow> path set \<Rightarrow> filesystem \<Rightarrow> bool" where
  "filled d W f =
     ((\<forall>r. is_file (f (d @ r)) \<longrightarrow> r \<in> W)
      \<and> (\<forall>r. f (d @ r) = Some Dir \<longrightarrow> (\<exists>b\<in>W. strict_prefix r b))
      \<and> (\<forall>q. strict_prefix q d \<longrightarrow> \<not> is_file (f q)))"

abbreviation targetFolder :: "env \<Rightarrow> item \<Rightarrow> path" where
  "targetFolder E it \<equiv> path_join (dirname E) (folder it)"

abbreviation localPath :: "env \<Rightarrow> item \<Rightarrow> tree_entry \<Rightarrow> path" where
  "localPath E it f \<equiv> path_join (targetFolder E it) (epath f)"

definition blobs :: "tree_entry list \<Rightarrow> tree_entry list" where
  "blobs tree = filter (\<lambda>file. etype file = ''blob'') tree"

text \<open>
  The state in which the loop of \<^verbatim>\<open>handleDownload\<close> starts over the listed \<open>files\<close>, when the
  download proper starts in \<open>s\<close>: after the \<^verbatim>\<open>Downloading\<close> line, the tree request and
  \<^verbatim>\<open>bar.start\<close>.
\<close>

definition loop_start :: "env \<Rightarrow> item \<Rightarrow> tree_entry list \<Rightarrow> state \<Rightarrow> state" where
  "loop_start E it files s =
     emit (BarStart (length files))
       (snd (fetchRepoFiles E (repo it) (Some (branch_of it)) (console_log (MsgDownloading (name it)) s)))"

section \<open>A catalog entry and its surroundings, for the examples\<close>

definition demo_item :: item where
  "demo_item = \<lparr>name = ''Demo'', repo = ''org/demo'', branch = Some ''main'',
                 folder = [''demo''], startFile = None\<rparr>"

definition demo_tree :: "tree_entry list" where
  "demo_tree = [\<lparr>epath = [''index.js''], etype = ''blob''\<rparr>,
                \<lparr>epath = [''src''], etype = ''tree''\<rparr>,
                \<lparr>epath = [''src'', ''a.js''], etype = ''blob''\<rparr>]"

text \<open>
  Everything works and the user says yes; the disk takes every write; \<^verbatim>\<open>npm install\<close>
  leaves the folder alone.
\<close>

definition demo_env :: env where
  "demo_env = \<lparr>dirname = [''app''],
                tree_api = (\<lambda>n url. Inr demo_tree),
                raw_api = (\<lambda>n url. Inr ''data''),
                rm_api = (\<lambda>n p. Removed),
                disk_api = (\<lambda>n p. None), disk_left = (\<lambda>n p. 0),
                answers = (\<lambda>n. True),
                npm = (\<lambda>d f. (False, f))\<rparr>"

definition fresh_state :: state where
  "fresh_state = \<lparr>fs = Map.empty, trace = [], reqs = 0, rms = 0, wrs = 0, asked = 0\<rparr>"

text \<open>The folder \<^verbatim>\<open>demo\<close> is installed, with an old file and a start file in it.\<close>

definition installed_state :: state where
  "installed_state =
     \<lparr>fs = [[''app'', ''demo''] \<mapsto> Dir, [''app'', ''demo'', ''old.txt''] \<mapsto> File ''old'',
             [''app'', ''demo'', ''index.js''] \<mapsto> File ''run''],
      trace = [], reqs = 0, rms = 0, wrs = 0, asked = 0\<rparr>"

text \<open>The user answers no to every question.\<close>

definition declining_env :: env where
  "declining_env = demo_env\<lparr>answers := (\<lambda>n. False)\<rparr>"

text \<open>The tree listing cannot be had.\<close>

definition no_tree_env :: env where
  "no_tree_env = demo_env\<lparr>tree_api := (\<lambda>n url. Inl (Error ''404''))\<rparr>"

text \<open>The first two requests fail; no request for file content ever succeeds.\<close>

definition flaky_env :: env where
  "flaky_env = demo_env\<lparr>raw_api := (\<lambda>n url. if n < 2 then Inl (Error ''timeout'') else Inr ''data'')\<rparr>"

definition offline_env :: env where
  "offline_env = demo_env\<lparr>raw_api := (\<lambda>n url. Inl (Error ''timeout''))\<rparr>"

text \<open>
  The listing is request 0 and the content of the first file request 1; every later
  request fails.
\<close>

definition breaking_env :: env where
  "breaking_env = demo_env\<lparr>raw_api := (\<lambda>n url. if n = 1 then Inr ''data'' else Inl (Error ''timeout''))\<rparr>"

text \<open>The folder cannot be deleted, for the first two attempts or forever.\<close>

definition briefly_busy_env :: env where
  "briefly_busy_env =
     demo_env\<lparr>rm_api := (\<lambda>n p. if n < 2 then RemoveFailed (Error ''EBUSY'') {} else Removed)\<rparr>"

definition busy_env :: env where
  "busy_env = demo_env\<lparr>rm_api := (\<lambda>n p. RemoveFailed (Error ''EBUSY'') {})\<rparr>"

text \<open>
  A repository that consists of \<^verbatim>\<open>package.json\<close>, and an \<^verbatim>\<open>npm install\<close> that writes
  \<^verbatim>\<open>package-lock.json\<close> next to it.
\<close>

definition package_tree :: "tree_entry list" where
  "package_tree = [\<lparr>epath = [''package.json''], etype = ''blob''\<rparr>]"

definition package_env :: env where
  "package_env =
     demo_env\<lparr>tree_api := (\<lambda>n url. Inr package_tree),
               raw_api := (\<lambda>n url. Inr ''{}''),
               npm := (\<lambda>d f. (False, f(d @ [''package-lock.json''] \<mapsto> File ''lock'')))\<rparr>"

text \<open>A listing in which one blob lies below another, as \<^verbatim>\<open>a\<close> and \<^verbatim>\<open>a/b\<close>.\<close>

definition clash_tree :: "tree_entry list" where
  "clash_tree = [\<lparr>epath = [''a''], etype = ''blob''\<rparr>, \<lparr>epath = [''a'', ''b''], etype = ''blob''\<rparr>]"

definition clash_env :: env where
  "clash_env = demo_env\<lparr>tree_api := (\<lambda>n url. Inr clash_tree)\<rparr>"

text \<open>Where the folder should be there is a file.\<close>

definition blocked_state :: state where
  "blocked_state =
     \<lparr>fs = [[] \<mapsto> Dir, [''app''] \<mapsto> Dir, [''app'', ''demo''] \<mapsto> File ''x''],
      trace = [], reqs = 0, rms = 0, wrs = 0, asked = 0\<rparr>"

section \<open>Basic facts about the library calls\<close>

lemma emit_simps [simp]:
  "trace (emit e s) = trace s @ [e]" "fs (emit e s) = fs s" "reqs (emit e s) = reqs s"
  "rms (emit e s) = rms s" "asked (emit e s) = asked s"
  by (simp_all add: emit_def)

lemma console_log_simps [simp]:
  "trace (console_log m s) = trace s @ [Log m]" "fs (console_log m s) = fs s"
  "reqs (console_log m s) = reqs s" "rms (console_log m s) = rms s"
  "asked (console_log m s) = asked s"
  by (simp_all add: console_log_def)

lemma sleep_simps [simp]:
  "trace (sleep ms s) = trace s @ [Delay ms]" "fs (sleep ms s) = fs s"
  "reqs (sleep ms s) = reqs s" "rms (sleep ms s) = rms s" "asked (sleep ms s) = asked s"
  by (simp_all add: sleep_def)

lemma axios_get_raw_simps [simp]:
  "fst (axios_get_raw E url s) = raw_api E (reqs s) url"
  "trace (snd (axios_get_raw E url s)) = trace s @ [Get url]"
  "fs (snd (axios_get_raw E url s)) = fs s"
  "reqs (snd (axios_get_raw E url s)) = Suc (reqs s)"
  "rms (snd (axios_get_raw E url s)) = rms s"
  "asked (snd (axios_get_raw E url s)) = asked s"
  by (simp_all add: axios_get_raw_def)

lemma axios_get_tree_simps [simp]:
  "fst (axios_get_tree E url s) = tree_api E (reqs s) url"
  "trace (snd (axios_get_tree E url s)) = trace s @ [Get url]"
  "fs (snd (axios_get_tree E url s)) = fs s"
  "reqs (snd (axios_get_tree E url s)) = Suc (reqs s)"
  "rms (snd (axios_get_tree E url s)) = rms s"
  "asked (snd (axios_get_tree E url s)) = asked s"
  by (simp_all add: axios_get_tree_def)

lemma prompts_confirm_simps [simp]:
  "fst (prompts_confirm E q s) = answers E (asked s)"
  "trace (snd (prompts_confirm E q s)) = trace s @ [Prompt q]"
  "fs (snd (prompts_confirm E q s)) = fs s"
  "reqs (snd (prompts_confirm E q s)) = reqs s"
  "rms (snd (prompts_confirm E q s)) = rms s"
  "asked (snd (prompts_confirm E q s)) = Suc (asked s)"
  by (simp_all add: prompts_confirm_def)

lemma fs_remove_simps [simp]:
  "trace (snd (fs_remove E p s)) = trace s @ [Remove p]"
  "reqs (snd (fs_remove E p s)) = reqs s"
  "rms (snd (fs_remove E p s)) = Suc (rms s)"
  "asked (snd (fs_remove E p s)) = asked s"
  by (simp_all add: fs_remove_def Let_def split: rm_outcome.splits)

lemma fs_remove_ok:
  "fst (fs_remove E p s) = Inr u \<longleftrightarrow> rm_api E (rms s) p = Removed"
  by (simp add: fs_remove_def Let_def split: rm_outcome.splits)

lemma fs_remove_clean:
  "rm_api E (rms s) p = Removed \<Longrightarrow> prefix p q \<Longrightarrow> fs (snd (fs_remove E p s)) q = None"
  by (simp add: fs_remove_def Let_def)

lemma fs_remove_failed:
  "rm_api E (rms s) p = RemoveFailed e lost \<Longrightarrow>
     fst (fs_remove E p s) = Inl e \<and> fs (snd (fs_remove E p s)) p = fs s p"
  by (simp add: fs_remove_def Let_def)

lemma emitted_append: "trace s' = trace s @ evs \<Longrightarrow> emitted s s' = evs"
  by (simp add: emitted_def)

lemma emitted_same [simp]: "emitted s s = []"
  by (simp add: emitted_def)

lemma written_append [simp]: "written (xs @ ys) = written xs @ written ys"
  by (induction xs rule: written.induct) simp_all

lemma removed_append [simp]: "removed (xs @ ys) = removed xs @ removed ys"
  by (induction xs rule: removed.induct) simp_all

lemma delays_append [simp]: "delays (xs @ ys) = delays xs @ delays ys"
  by (induction xs rule: delays.induct) simp_all

lemma requests_append [simp]: "requests (xs @ ys) = requests xs @ requests ys"
  by (induction xs rule: requests.induct) simp_all

lemma logged_append [simp]: "logged (xs @ ys) = logged xs @ logged ys"
  by (induction xs rule: logged.induct) simp_all

lemma launches_append [simp]: "launches (xs @ ys) = launches xs @ launches ys"
  by (induction xs rule: launches.induct) simp_all

text \<open>The examples: where the folder is, and what the installed state holds.\<close>

lemma target_demo_env [simp]: "targetFolder demo_env demo_item = [''app'', ''demo'']"
  by (simp add: path_join_def demo_env_def demo_item_def)

lemma target_declining_env [simp]: "targetFolder declining_env demo_item = [''app'', ''demo'']"
  by (simp add: path_join_def declining_env_def demo_env_def demo_item_def)

lemma target_busy_env [simp]: "targetFolder busy_env demo_item = [''app'', ''demo'']"
  by (simp add: path_join_def busy_env_def demo_env_def demo_item_def)

lemma target_briefly_busy_env [simp]: "targetFolder briefly_busy_env demo_item = [''app'', ''demo'']"
  by (simp add: path_join_def briefly_busy_env_def demo_env_def demo_item_def)

lemma target_package_env [simp]: "targetFolder package_env demo_item = [''app'', ''demo'']"
  by (simp add: path_join_def package_env_def demo_env_def demo_item_def)

lemma target_breaking_env [simp]: "targetFolder breaking_env demo_item = [''app'', ''demo'']"
  by (simp add: path_join_def breaking_env_def demo_env_def demo_item_def)

lemma target_flaky_env [simp]: "targetFolder flaky_env demo_item = [''app'', ''demo'']"
  by (simp add: path_join_def flaky_env_def demo_env_def demo_item_def)

lemma installed_state_simps [simp]:
  "fs_existsSync [''app'', ''demo''] installed_state"
  "rms installed_state = 0" "reqs installed_state = 0" "asked installed_state = 0"
  "trace installed_state = []"
  by (simp_all add: fs_existsSync_def installed_state_def)

text \<open>The definitions to unfold when the program is run on one of the examples.\<close>

lemmas run_defs =
  handleUpdate_def handleUpdate_cjs_def handleUninstall_def handleUninstall_cjs_def
  handleDownload_def materialize_def download_try_def loop_start_def
  fetchRepoFiles_def download_loop.simps downloadFile_def downloadFile_from.simps
  download_attempt_def is_file_def
  removeWithRetries_def removeWithRetries_from.simps installDependencies_def
  fs_remove_def prompts_confirm_def axios_get_tree_def axios_get_raw_def fs_existsSync_def
  fs_writeFile_def fs_ensureDir_def emit_def console_log_def sleep_def Let_def emitted_def
  path_join_def path_dirname_def branch_of_def default_branch_def blobs_def
  demo_env_def demo_item_def demo_tree_def fresh_state_def installed_state_def

section \<open>Declined prompts\<close>

text \<open>
  C6. The folder of the entry exists and the user declines the overwrite question: then
  \<^verbatim>\<open>handleDownload\<close> returns after the prompt alone. Nothing is deleted, requested or
  written, the file system is the one it started from, and a second declined Install
  leaves it the same again.
\<close>

theorem declined_overwrite_changes_nothing:
  assumes "fs_existsSync (targetFolder E it) s" and "\<not> answers E (asked s)"
  shows "fst (handleDownload E it s) = Inr ()
       \<and> emitted s (snd (handleDownload E it s)) = [Prompt (AskOverwrite (name it))]
       \<and> removed (emitted s (snd (handleDownload E it s))) = []
       \<and> requests (emitted s (snd (handleDownload E it s))) = []
       \<and> written (emitted s (snd (handleDownload E it s))) = []
       \<and> fs (snd (handleDownload E it s)) = fs s
       \<and> (\<not> answers E (Suc (asked s)) \<longrightarrow>
            fs (snd (handleDownload E it (snd (handleDownload E it s)))) = fs s)"
proof -
  have one: "handleDownload E it s' = (Inr (), snd (prompts_confirm E (AskOverwrite (name it)) s'))"
    if "fs_existsSync (targetFolder E it) s'" and "\<not> answers E (asked s')" for s'
    using that by (simp add: handleDownload_def Let_def split: prod.splits) (metis prompts_confirm_simps(1) fst_conv snd_conv)
  let ?s1 = "snd (prompts_confirm E (AskOverwrite (name it)) s)"
  have ex1: "fs_existsSync (targetFolder E it) ?s1"
    using assms(1) by (simp add: fs_existsSync_def)
  show ?thesis
    using one [OF assms] one [OF ex1] by (simp add: emitted_def)
qed

theorem declined_overwrite_changes_nothing_witness:
  "fs_existsSync (targetFolder declining_env demo_item) installed_state
   \<and> \<not> answers declining_env (asked installed_state)
   \<and> \<not> answers declining_env (Suc (asked installed_state))
   \<and> emitted installed_state (snd (handleDownload declining_env demo_item installed_state))
       = [Prompt (AskOverwrite ''Demo'')]
   \<and> fs (snd (handleDownload declining_env demo_item installed_state))
       = fs installed_state
   \<and> fs (snd (handleDownload declining_env demo_item
             (snd (handleDownload declining_env demo_item installed_state))))
       = fs installed_state"
proof -
  have h1: "fs_existsSync (targetFolder declining_env demo_item) installed_state"
    by (simp add: fs_existsSync_def path_join_def declining_env_def demo_env_def demo_item_def
          installed_state_def)
  have h2: "\<not> answers declining_env (asked installed_state)"
    by (simp add: declining_env_def)
  have h3: "\<not> answers declining_env (Suc (asked installed_state))"
    by (simp add: declining_env_def)
  show ?thesis
    using h1 h2 h3 declined_overwrite_changes_nothing [OF h1 h2]
    by (simp add: demo_item_def)
qed

text \<open>
  C10. The folder of the entry exists and the user declines the uninstall question: then
  \<^verbatim>\<open>handleUninstall\<close>, in both variants, returns after the prompt alone, with no
  \<^verbatim>\<open>fs.remove\<close> and the file system unchanged.
\<close>

theorem declined_uninstall_changes_nothing:
  assumes "fs_existsSync (targetFolder E it) s" and "\<not> answers E (asked s)"
  shows "fst (handleUninstall E it s) = Inr ()
       \<and> emitted s (snd (handleUninstall E it s)) = [Prompt (AskUninstall (name it))]
       \<and> removed (emitted s (snd (handleUninstall E it s))) = []
       \<and> fs (snd (handleUninstall E it s)) = fs s
       \<and> fst (handleUninstall_cjs E it s) = Inr ()
       \<and> emitted s (snd (handleUninstall_cjs E it s)) = [Prompt (AskUninstall (name it))]
       \<and> removed (emitted s (snd (handleUninstall_cjs E it s))) = []
       \<and> fs (snd (handleUninstall_cjs E it s)) = fs s"
proof -
  obtain a s1 where p: "prompts_confirm E (AskUninstall (name it)) s = (a, s1)"
    by (cases "prompts_confirm E (AskUninstall (name it)) s")
  have a: "\<not> a" using p assms(2) prompts_confirm_simps(1) [of E "AskUninstall (name it)" s] by simp
  have s1: "s1 = snd (prompts_confirm E (AskUninstall (name it)) s)" using p by simp
  have "handleUninstall E it s = (Inr (), s1)" "handleUninstall_cjs E it s = (Inr (), s1)"
    using assms(1) p a by (simp_all add: handleUninstall_def handleUninstall_cjs_def Let_def)
  then show ?thesis by (simp add: s1 emitted_def)
qed

theorem declined_uninstall_changes_nothing_witness:
  "fs_existsSync (targetFolder declining_env demo_item) installed_state
   \<and> \<not> answers declining_env (asked installed_state)
   \<and> removed (emitted installed_state (snd (handleUninstall declining_env demo_item installed_state))) = []
   \<and> fs (snd (handleUninstall declining_env demo_item installed_state))
       = fs installed_state
   \<and> fs (snd (handleUninstall_cjs declining_env demo_item installed_state))
       = fs installed_state"
proof -
  have h1: "fs_existsSync (targetFolder declining_env demo_item) installed_state"
    by (simp add: fs_existsSync_def path_join_def declining_env_def demo_env_def demo_item_def
          installed_state_def)
  have h2: "\<not> answers declining_env (asked installed_state)"
    by (simp add: declining_env_def)
  show ?thesis
    using h1 h2 declined_uninstall_changes_nothing [OF h1 h2] by simp
qed

section \<open>The tree listing\<close>

lemma fetchRepoFiles_result:
  "fetchRepoFiles E r b s =
     (map_sum id blobs (tree_api E (reqs s) (apiUrl r (default_branch b))),
      snd (axios_get_tree E (apiUrl r (default_branch b)) s))"
  by (cases "tree_api E (reqs s) (apiUrl r (default_branch b))")
     (simp_all add: fetchRepoFiles_def axios_get_tree_def blobs_def)

lemma materialize_tree_failed:
  assumes "tree_api E (reqs s) (apiUrl (repo it) (branch_of it)) = Inl e"
  shows "materialize E it s =
           console_log (MsgErrorDownloading (name it) (message e))
             (snd (axios_get_tree E (apiUrl (repo it) (branch_of it))
                (console_log (MsgDownloading (name it)) s)))"
  using assms
  by (simp add: materialize_def download_try_def fetchRepoFiles_result default_branch_def)

text \<open>
  C7. \<^verbatim>\<open>fetchRepoFiles\<close> sends one request, to the tree URL that ends in
  \<^verbatim>\<open>?recursive=1\<close>, and nothing else happens: no second request, no delay. A listing that
  arrives is returned filtered to its \<^verbatim>\<open>blob\<close> entries, in the order of the listing; a
  failed request is passed on as the failure of \<^verbatim>\<open>fetchRepoFiles\<close>. In \<^verbatim>\<open>handleDownload\<close>
  that failure ends the materialization: after the request only the error line is printed,
  no file is requested or written.
\<close>

theorem tree_listing_single_recursive_request:
  "emitted s (snd (fetchRepoFiles E r b s)) = [Get (apiUrl r (default_branch b))]
   \<and> suffix ''?recursive=1'' (apiUrl r (default_branch b))
   \<and> (\<forall>t. tree_api E (reqs s) (apiUrl r (default_branch b)) = Inr t \<longrightarrow>
          fst (fetchRepoFiles E r b s) = Inr (filter (\<lambda>f. etype f = ''blob'') t))
   \<and> (\<forall>e. tree_api E (reqs s) (apiUrl r (default_branch b)) = Inl e \<longrightarrow>
          fst (fetchRepoFiles E r b s) = Inl e)
   \<and> (\<forall>e. tree_api E (reqs s) (apiUrl (repo it) (branch_of it)) = Inl e \<longrightarrow>
          emitted s (materialize E it s) =
            [Log (MsgDownloading (name it)), Get (apiUrl (repo it) (branch_of it)),
             Log (MsgErrorDownloading (name it) (message e))]
          \<and> fs (materialize E it s) = fs s)"
proof -
  have "suffix ''?recursive=1'' (apiUrl r (default_branch b))"
    unfolding apiUrl_def suffix_def by (metis append.assoc)
  then show ?thesis
    by (simp add: fetchRepoFiles_result materialize_tree_failed emitted_def blobs_def)
qed

theorem tree_listing_single_recursive_request_witness:
  "tree_api demo_env (reqs fresh_state) (apiUrl ''org/demo'' (default_branch None)) = Inr demo_tree
   \<and> fst (fetchRepoFiles demo_env ''org/demo'' None fresh_state) =
        Inr [\<lparr>epath = [''index.js''], etype = ''blob''\<rparr>, \<lparr>epath = [''src'', ''a.js''], etype = ''blob''\<rparr>]
   \<and> tree_api no_tree_env (reqs fresh_state)
        (apiUrl ''org/demo'' (default_branch None)) = Inl (Error ''404'')
   \<and> fst (fetchRepoFiles no_tree_env ''org/demo'' None fresh_state)
        = Inl (Error ''404'')
   \<and> tree_api no_tree_env (reqs fresh_state)
        (apiUrl (repo demo_item) (branch_of demo_item)) = Inl (Error ''404'')
   \<and> emitted fresh_state (materialize no_tree_env demo_item fresh_state)
        = [Log (MsgDownloading ''Demo''), Get (apiUrl ''org/demo'' ''main''),
           Log (MsgErrorDownloading ''Demo'' ''404'')]
   \<and> fs (materialize no_tree_env demo_item fresh_state)
        = fs fresh_state"
proof -
  have h1: "tree_api demo_env (reqs fresh_state) (apiUrl ''org/demo'' (default_branch None)) = Inr demo_tree"
    by (simp add: demo_env_def)
  have h2: "tree_api no_tree_env (reqs fresh_state) u
              = Inl (Error ''404'')" for u
    by (simp add: no_tree_env_def)
  have d: "name demo_item = ''Demo''" "repo demo_item = ''org/demo''" "branch_of demo_item = ''main''"
    by (simp_all add: demo_item_def branch_of_def default_branch_def)
  show ?thesis
    using h1 h2
      tree_listing_single_recursive_request [of fresh_state demo_env "''org/demo''" None demo_item]
      tree_listing_single_recursive_request [of fresh_state
         no_tree_env "''org/demo''" None demo_item]
    by (simp add: d demo_tree_def)
qed

section \<open>Start\<close>

text \<open>
  C8. \<^verbatim>\<open>startRepo\<close> launches exactly when the folder of the entry and the start file in
  it both exist, and then the launch is the last thing it does: \<^verbatim>\<open>exec\<close> is not awaited.
  When the folder or the start file is missing it prints one error line and launches
  nothing. In no case does it change the file system.
\<close>

theorem start_needs_folder_and_start_file:
  "launches (emitted s (startRepo E it s)) =
     (if fs_existsSync (targetFolder E it) s
         \<and> fs_existsSync (path_join (targetFolder E it) (startFile_or_default it)) s
      then [(path_join (targetFolder E it) (startFile_or_default it), targetFolder E it)] else [])
   \<and> fs (startRepo E it s) = fs s
   \<and> (\<not> fs_existsSync (targetFolder E it) s \<longrightarrow>
        emitted s (startRepo E it s) = [Log (MsgNotInstalled (name it))])
   \<and> (fs_existsSync (targetFolder E it) s
        \<and> \<not> fs_existsSync (path_join (targetFolder E it) (startFile_or_default it)) s \<longrightarrow>
        emitted s (startRepo E it s) = [Log (MsgStartFileNotFound (startFile_or_default it) (name it))])
   \<and> (fs_existsSync (targetFolder E it) s
        \<and> fs_existsSync (path_join (targetFolder E it) (startFile_or_default it)) s \<longrightarrow>
        emitted s (startRepo E it s) =
          [Log (MsgLaunching (name it)),
           ExecStart (path_join (targetFolder E it) (startFile_or_default it)) (targetFolder E it)])"
  by (simp add: startRepo_def Let_def emitted_def)

theorem start_needs_folder_and_start_file_witness:
  "\<not> fs_existsSync (targetFolder demo_env demo_item) fresh_state
   \<and> emitted fresh_state (startRepo demo_env demo_item fresh_state) = [Log (MsgNotInstalled ''Demo'')]
   \<and> fs_existsSync (targetFolder demo_env demo_item) installed_state
   \<and> \<not> fs_existsSync (path_join (targetFolder demo_env demo_item)
          (startFile_or_default (demo_item\<lparr>startFile := Some [''main.js'']\<rparr>))) installed_state
   \<and> emitted installed_state (startRepo demo_env (demo_item\<lparr>startFile := Some [''main.js'']\<rparr>) installed_state)
        = [Log (MsgStartFileNotFound [''main.js''] ''Demo'')]
   \<and> fs_existsSync (path_join (targetFolder demo_env demo_item) (startFile_or_default demo_item))
        installed_state
   \<and> emitted installed_state (startRepo demo_env demo_item installed_state)
        = [Log (MsgLaunching ''Demo''), ExecStart [''app'', ''demo'', ''index.js''] [''app'', ''demo'']]"
proof -
  have h1: "\<not> fs_existsSync (targetFolder demo_env demo_item) fresh_state"
    by (simp add: fs_existsSync_def fresh_state_def)
  have h2: "fs_existsSync (targetFolder demo_env demo_item) installed_state"
    by (simp add: fs_existsSync_def path_join_def demo_env_def demo_item_def installed_state_def)
  have h3: "\<not> fs_existsSync (path_join (targetFolder demo_env demo_item)
          (startFile_or_default (demo_item\<lparr>startFile := Some [''main.js'']\<rparr>))) installed_state"
    by (simp add: fs_existsSync_def path_join_def demo_env_def demo_item_def installed_state_def
          startFile_or_default_def)
  have h4: "fs_existsSync (path_join (targetFolder demo_env demo_item) (startFile_or_default demo_item))
        installed_state"
    by (simp add: fs_existsSync_def path_join_def demo_env_def demo_item_def installed_state_def
          startFile_or_default_def)
  have d: "name demo_item = ''Demo''" "folder demo_item = [''demo'']" "dirname demo_env = [''app'']"
    "startFile_or_default demo_item = [''index.js'']"
    "startFile_or_default (demo_item\<lparr>startFile := Some [''main.js'']\<rparr>) = [''main.js'']"
    by (simp_all add: demo_item_def demo_env_def startFile_or_default_def)
  show ?thesis
    using h1 h2 h3 h4
      start_needs_folder_and_start_file [of fresh_state demo_env demo_item]
      start_needs_folder_and_start_file [of installed_state demo_env "demo_item\<lparr>startFile := Some [''main.js'']\<rparr>"]
      start_needs_folder_and_start_file [of installed_state demo_env demo_item]
    by (simp add: d path_join_def)
qed

text \<open>
  C9. An entry without \<^verbatim>\<open>startFile\<close> is started through \<^verbatim>\<open>index.js\<close>: in an installed
  folder \<^verbatim>\<open>startRepo\<close> looks for \<^verbatim>\<open><folder>/index.js\<close>, launches that path when it is there,
  and reports \<^verbatim>\<open>index.js\<close> as missing when it is not.
\<close>

theorem start_file_defaults_to_index_js:
  assumes "startFile it = None" and "fs_existsSync (targetFolder E it) s"
  shows "startFile_or_default it = [''index.js'']
       \<and> (fs_existsSync (path_join (targetFolder E it) [''index.js'']) s \<longrightarrow>
            launches (emitted s (startRepo E it s)) =
              [(path_join (targetFolder E it) [''index.js''], targetFolder E it)])
       \<and> (\<not> fs_existsSync (path_join (targetFolder E it) [''index.js'']) s \<longrightarrow>
            launches (emitted s (startRepo E it s)) = []
            \<and> logged (emitted s (startRepo E it s)) = [MsgStartFileNotFound [''index.js''] (name it)])"
  using assms by (simp add: startRepo_def startFile_or_default_def Let_def emitted_def)

theorem start_file_defaults_to_index_js_witness:
  "startFile demo_item = None
   \<and> fs_existsSync (targetFolder demo_env demo_item) installed_state
   \<and> fs_existsSync (path_join (targetFolder demo_env demo_item) [''index.js'']) installed_state
   \<and> launches (emitted installed_state (startRepo demo_env demo_item installed_state))
        = [([''app'', ''demo'', ''index.js''], [''app'', ''demo''])]
   \<and> startFile (demo_item\<lparr>folder := [''demo'', ''old.txt'']\<rparr>) = None
   \<and> fs_existsSync (targetFolder demo_env (demo_item\<lparr>folder := [''demo'', ''old.txt'']\<rparr>)) installed_state
   \<and> \<not> fs_existsSync (path_join (targetFolder demo_env (demo_item\<lparr>folder := [''demo'', ''old.txt'']\<rparr>))
          [''index.js'']) installed_state
   \<and> launches (emitted installed_state
        (startRepo demo_env (demo_item\<lparr>folder := [''demo'', ''old.txt'']\<rparr>) installed_state)) = []
   \<and> logged (emitted installed_state
        (startRepo demo_env (demo_item\<lparr>folder := [''demo'', ''old.txt'']\<rparr>) installed_state))
        = [MsgStartFileNotFound [''index.js''] ''Demo'']"
proof -
  have h1: "startFile demo_item = None" "startFile (demo_item\<lparr>folder := [''demo'', ''old.txt'']\<rparr>) = None"
    by (simp_all add: demo_item_def)
  have h2: "fs_existsSync (targetFolder demo_env demo_item) installed_state"
    "fs_existsSync (targetFolder demo_env (demo_item\<lparr>folder := [''demo'', ''old.txt'']\<rparr>)) installed_state"
    by (simp_all add: fs_existsSync_def path_join_def demo_env_def demo_item_def installed_state_def)
  have h3: "fs_existsSync (path_join (targetFolder demo_env demo_item) [''index.js'']) installed_state"
    by (simp add: fs_existsSync_def path_join_def demo_env_def demo_item_def installed_state_def)
  have h4: "\<not> fs_existsSync (path_join (targetFolder demo_env (demo_item\<lparr>folder := [''demo'', ''old.txt'']\<rparr>))
          [''index.js'']) installed_state"
    by (simp add: fs_existsSync_def path_join_def demo_env_def demo_item_def installed_state_def)
  have d: "name demo_item = ''Demo''" "folder demo_item = [''demo'']" "dirname demo_env = [''app'']"
    by (simp_all add: demo_item_def demo_env_def)
  show ?thesis
    using h1 h2 h3 h4
      start_file_defaults_to_index_js [OF h1(1) h2(1)]
      start_file_defaults_to_index_js [OF h1(2) h2(2)]
    by (simp add: d path_join_def)
qed

section \<open>Retry loops\<close>

lemma projections_of_retries [simp]:
  "delays (concat (replicate k [Get url, Delay ms])) = replicate k ms"
  "requests (concat (replicate k [Get url, Delay ms])) = replicate k url"
  "written (concat (replicate k [Get url, Delay ms])) = []"
  "removed (concat (replicate k [Get url, Delay ms])) = []"
  "delays (concat (replicate k [Remove p, Delay ms])) = replicate k ms"
  "removed (concat (replicate k [Remove p, Delay ms])) = replicate k p"
  "requests (concat (replicate k [Remove p, Delay ms])) = []"
  "written (concat (replicate k [Remove p, Delay ms])) = []"
  by (induction k) simp_all

lemma replicate_snoc: "replicate k x @ [x] = replicate (Suc k) x"
  by (simp add: replicate_append_same)

text \<open>
  The local writes: what a call that went through has done, and what a failed call can
  have done: \<^verbatim>\<open>ensureDir\<close> has at most added directories, \<^verbatim>\<open>writeFile\<close> has at most left a
  file at its path.
\<close>

lemma no_file_on_chain:
  "list_ex (\<lambda>q. is_file (f q)) (prefixes d) \<longleftrightarrow> (\<exists>q. prefix q d \<and> is_file (f q))"
  by (auto simp add: list_ex_iff)

lemma fs_ensureDir_cases:
  assumes "fs_ensureDir E d s = (r, s1)"
  shows "reqs s1 = reqs s \<and> rms s1 = rms s \<and> asked s1 = asked s
       \<and> (case r of
            Inl e \<Rightarrow> trace s1 = trace s @ [EnsureDirFailed d]
              \<and> (\<forall>q. fs s1 q = fs s q \<or> (fs s q = None \<and> fs s1 q = Some Dir))
          | Inr u \<Rightarrow> trace s1 = trace s @ [EnsureDir d]
              \<and> fs s1 = (\<lambda>q. if prefix q d \<and> fs s q = None then Some Dir else fs s q)
              \<and> (\<forall>q. prefix q d \<longrightarrow> \<not> is_file (fs s q))
              \<and> disk_api E (wrs s) d = None)"
  using assms
  by (auto simp add: fs_ensureDir_def Let_def no_file_on_chain split: if_splits option.splits)

lemma fs_writeFile_cases:
  assumes "fs_writeFile E p c s = (r, s1)"
  shows "reqs s1 = reqs s \<and> rms s1 = rms s \<and> asked s1 = asked s
       \<and> (case r of
            Inl e \<Rightarrow> trace s1 = trace s @ [WriteFileFailed p]
              \<and> (fs s1 = fs s \<or> (\<exists>c'. fs s1 = (fs s)(p \<mapsto> File c')))
              \<and> (fs s p = Some Dir \<longrightarrow> fs s1 = fs s)
          | Inr u \<Rightarrow> trace s1 = trace s @ [WriteFile p c] \<and> fs s1 = (fs s)(p \<mapsto> File c)
              \<and> fs s p \<noteq> Some Dir \<and> fs s (path_dirname p) = Some Dir)"
  using assms
  by (auto simp add: fs_writeFile_def Let_def split: if_splits option.splits nat.splits)

lemma same_files_refl [simp]: "same_files f f"
  by (simp add: same_files_def)

lemma same_files_ensureDir:
  "same_files f (\<lambda>q. if prefix q d \<and> f q = None then Some Dir else f q)"
  by (simp add: same_files_def)

lemma same_files_grown:
  "\<forall>q. f' q = f q \<or> (f q = None \<and> f' q = Some Dir) \<Longrightarrow> same_files f f'"
  unfolding same_files_def
proof (intro allI)
  fix q c
  assume a: "\<forall>q. f' q = f q \<or> (f q = None \<and> f' q = Some Dir)"
  from a have "f' q = f q \<or> (f q = None \<and> f' q = Some Dir)" by blast
  then show "f' q = Some (File c) \<longleftrightarrow> f q = Some (File c)" by auto
qed

lemma same_files_trans: "same_files f g \<Longrightarrow> same_files g h \<Longrightarrow> same_files f h"
  by (simp add: same_files_def)

lemma same_files_but_refl [simp]: "same_files_but p f f"
  by (simp add: same_files_but_def)

lemma same_files_but_trans:
  "same_files_but p f g \<Longrightarrow> same_files_but p g h \<Longrightarrow> same_files_but p f h"
  unfolding same_files_but_def by metis

lemma same_files_imp_but: "same_files f g \<Longrightarrow> same_files_but p f g"
  by (simp add: same_files_def same_files_but_def)

lemma same_files_but_upd: "same_files f g \<Longrightarrow> same_files_but p f (g(p \<mapsto> x))"
  by (simp add: same_files_def same_files_but_def)

text \<open>What came before a write to \<open>p\<close> may have changed what is at \<open>p\<close>: the write covers it.\<close>

lemma same_files_but_covered:
  assumes "same_files_but p f g" and "same_files g f1"
  shows "\<exists>f2. same_files f f2 \<and> f2(p \<mapsto> x) = f1(p \<mapsto> x)"
proof (intro exI conjI)
  show "same_files f (f1(p := f p))"
    using assms unfolding same_files_def same_files_but_def by (metis fun_upd_apply)
  show "(f1(p := f p))(p \<mapsto> x) = f1(p \<mapsto> x)" by simp
qed

lemma unwritable_grown:
  assumes "\<not> writable f p" and "\<forall>q. f' q = f q \<or> (f q = None \<and> f' q = Some Dir)"
  shows "\<not> writable f' p"
proof -
  from assms(1) consider "p = []" | q where "prefix q (path_dirname p)" "is_file (f q)"
    | "f p = Some Dir"
    by (auto simp add: writable_def no_file_on_chain)
  then show ?thesis
  proof cases
    case 1
    then show ?thesis by (simp add: writable_def)
  next
    case 2
    from assms(2) have "f' q = f q \<or> (f q = None \<and> f' q = Some Dir)" by blast
    with 2(2) have "is_file (f' q)" by (auto simp add: is_file_def)
    with 2(1) show ?thesis by (auto simp add: writable_def no_file_on_chain)
  next
    case 3
    from assms(2) have "f' p = f p \<or> (f p = None \<and> f' p = Some Dir)" by blast
    with 3 show ?thesis by (auto simp add: writable_def)
  qed
qed

lemma files_in_same_files:
  "same_files f f1 \<Longrightarrow> files_in (f1(d @ p \<mapsto> File c)) d = insert p (files_in f d)"
  by (auto simp add: same_files_def files_in_def)

text \<open>One pass through the \<^verbatim>\<open>try\<close> block, however the request and the disk answer.\<close>

lemma download_attempt_cases:
  assumes "download_attempt E url dest s = (r, s1)"
  shows "reqs s1 = Suc (reqs s) \<and> rms s1 = rms s \<and> asked s1 = asked s
       \<and> (\<exists>evs. trace s1 = trace s @ Get url # evs \<and> logged evs = [] \<and> removed evs = []
             \<and> delays evs = [] \<and> requests evs = []
             \<and> (case r of
                  Inl e \<Rightarrow> same_files_but dest (fs s) (fs s1) \<and> written evs = []
                | Inr u \<Rightarrow> written evs = [dest]
                    \<and> (\<exists>body f1. same_files (fs s) f1 \<and> fs s1 = f1(dest \<mapsto> File body))))"
proof (cases "raw_api E (reqs s) url")
  case (Inl e)
  then have "r = Inl e" "s1 = snd (axios_get_raw E url s)"
    using assms by (simp_all add: download_attempt_def axios_get_raw_def)
  then show ?thesis by simp
next
  case (Inr body)
  let ?s0 = "snd (axios_get_raw E url s)"
  obtain r1 s2 where en: "fs_ensureDir E (path_dirname dest) ?s0 = (r1, s2)"
    by (cases "fs_ensureDir E (path_dirname dest) ?s0")
  note c1 = fs_ensureDir_cases [OF en]
  show ?thesis
  proof (cases r1)
    case (Inl e)
    then have res: "r = Inl e" "s1 = s2"
      using assms Inr en by (simp_all add: download_attempt_def axios_get_raw_def)
    from c1 Inl have "\<forall>q. fs s2 q = fs s q \<or> (fs s q = None \<and> fs s2 q = Some Dir)" by simp
    then have "same_files_but dest (fs s) (fs s2)"
      by (intro same_files_imp_but same_files_grown)
    then show ?thesis using c1 Inl res by simp
  next
    case Inr1: (Inr u)
    obtain r2 s3 where wf: "fs_writeFile E dest body s2 = (r2, s3)"
      by (cases "fs_writeFile E dest body s2")
    note c2 = fs_writeFile_cases [OF wf]
    have res: "r = r2" "s1 = s3"
      using assms Inr en Inr1 wf by (simp_all add: download_attempt_def axios_get_raw_def)
    have sf: "same_files (fs s) (fs s2)"
      using c1 Inr1 same_files_ensureDir [of "fs s" "path_dirname dest"] by (simp cong: if_cong)
    show ?thesis
    proof (cases r2)
      case (Inl e)
      from c2 Inl have "fs s3 = fs s2 \<or> (\<exists>c'. fs s3 = (fs s2)(dest \<mapsto> File c'))" by simp
      then have "same_files_but dest (fs s) (fs s3)"
        using sf same_files_imp_but [OF sf] same_files_but_upd [OF sf] by auto
      then show ?thesis using c1 c2 Inr1 Inl res by simp
    next
      case Inr2: (Inr u2)
      have "\<exists>body f1. same_files (fs s) f1 \<and> fs s1 = f1(dest \<mapsto> File body)"
        using c2 Inr2 res sf by auto
      then show ?thesis using c1 c2 Inr1 Inr2 res by simp
    qed
  qed
qed

lemma download_attempt_request_failed:
  assumes "isl (raw_api E (reqs s) url)"
  shows "isl (fst (download_attempt E url dest s))"
    and "snd (download_attempt E url dest s) = snd (axios_get_raw E url s)"
  using assms
  by (cases "raw_api E (reqs s) url"; simp add: download_attempt_def axios_get_raw_def)+

lemma not_prefix_butlast:
  assumes "p \<noteq> []"
  shows "\<not> prefix p (butlast p)"
proof
  assume "prefix p (butlast p)"
  then have "length p \<le> length (butlast p)" by (rule prefix_length_le)
  then have l: "length p \<le> length p - 1" by (simp only: length_butlast)
  have "length p \<noteq> 0" using assms by simp
  with l show False by linarith
qed

text \<open>An answered request, a destination that can be written and a willing disk: the pass succeeds.\<close>

lemma download_attempt_ok:
  assumes "raw_api E (reqs s) url = Inr body" and "writable (fs s) dest"
    and "\<forall>n p. disk_api E n p = None"
  shows "\<exists>s1. download_attempt E url dest s = (Inr (), s1)
          \<and> trace s1 = trace s @ [Get url, EnsureDir (path_dirname dest), WriteFile dest body]
          \<and> fs s1 = put_file dest body (fs s)
          \<and> reqs s1 = Suc (reqs s) \<and> rms s1 = rms s \<and> asked s1 = asked s"
proof -
  let ?s0 = "snd (axios_get_raw E url s)"
  let ?d = "path_dirname dest"
  let ?f1 = "\<lambda>q. if prefix q ?d \<and> fs s q = None then Some Dir else fs s q"
  from assms(2) have ne: "dest \<noteq> []" and chain: "\<forall>q. prefix q ?d \<longrightarrow> \<not> is_file (fs s q)"
    and nd: "fs s dest \<noteq> Some Dir"
    by (auto simp add: writable_def no_file_on_chain)
  let ?s2 = "emit (EnsureDir ?d) (?s0\<lparr>wrs := Suc (wrs ?s0), fs := ?f1\<rparr>)"
  have en: "fs_ensureDir E ?d ?s0 = (Inr (), ?s2)"
    using chain assms(3) by (simp add: fs_ensureDir_def Let_def no_file_on_chain cong: if_cong)
  have "\<not> is_file (fs s ?d)" using chain by simp
  then have parent: "?f1 ?d = Some Dir"
    by (cases "fs s ?d") (auto simp add: is_file_def split: node.splits)
  have "\<not> prefix dest ?d" using ne by (simp add: path_dirname_def not_prefix_butlast)
  then have here: "?f1 dest \<noteq> Some Dir" using nd by simp
  let ?s3 = "emit (WriteFile dest body) (?s2\<lparr>wrs := Suc (wrs ?s2), fs := ?f1(dest \<mapsto> File body)\<rparr>)"
  have wf: "fs_writeFile E dest body ?s2 = (Inr (), ?s3)"
    using parent here assms(3) by (simp add: fs_writeFile_def Let_def)
  have "download_attempt E url dest s = (Inr (), ?s3)"
    using assms(1) en wf by (simp add: download_attempt_def axios_get_raw_def)
  then show ?thesis
    by (intro exI [of _ ?s3]) (simp add: put_file_def)
qed

text \<open>A destination that cannot be written: the pass fails, and the destination stays as it is.\<close>

lemma download_attempt_unwritable:
  assumes "\<not> writable (fs s) dest"
  shows "\<exists>e s1 evs. download_attempt E url dest s = (Inl e, s1) \<and> \<not> writable (fs s1) dest
          \<and> same_files (fs s) (fs s1)
          \<and> trace s1 = trace s @ Get url # evs \<and> requests evs = [] \<and> delays evs = []
          \<and> written evs = []"
proof -
  obtain r s1 where a: "download_attempt E url dest s = (r, s1)"
    by (cases "download_attempt E url dest s")
  have both: "isl r \<and> \<not> writable (fs s1) dest \<and> same_files (fs s) (fs s1)"
  proof (cases "raw_api E (reqs s) url")
    case (Inl e)
    then have "r = Inl e" "s1 = snd (axios_get_raw E url s)"
      using a by (simp_all add: download_attempt_def axios_get_raw_def)
    then show ?thesis using assms by simp
  next
    case (Inr body)
    let ?s0 = "snd (axios_get_raw E url s)"
    obtain r1 s2 where en: "fs_ensureDir E (path_dirname dest) ?s0 = (r1, s2)"
      by (cases "fs_ensureDir E (path_dirname dest) ?s0")
    note c1 = fs_ensureDir_cases [OF en]
    show ?thesis
    proof (cases r1)
      case (Inl e)
      then have res: "r = Inl e" "s1 = s2"
        using a Inr en by (simp_all add: download_attempt_def axios_get_raw_def)
      from c1 Inl have g: "\<forall>q. fs s2 q = fs s q \<or> (fs s q = None \<and> fs s2 q = Some Dir)" by simp
      show ?thesis
        using res unwritable_grown [OF assms g] same_files_grown [OF g] by simp
    next
      case Inr1: (Inr u)
      then have chain: "\<forall>q. prefix q (path_dirname dest) \<longrightarrow> \<not> is_file (fs s q)"
        and f2: "fs s2 = (\<lambda>q. if prefix q (path_dirname dest) \<and> fs s q = None then Some Dir else fs s q)"
        using c1 by (simp_all cong: if_cong)
      from assms chain have "dest = [] \<or> fs s dest = Some Dir"
        by (auto simp add: writable_def no_file_on_chain)
      then have dir: "fs s2 dest = Some Dir"
      proof
        assume e: "dest = []"
        from chain have "\<not> is_file (fs s [])" by (simp add: e path_dirname_def)
        then show ?thesis
          by (cases "fs s []") (auto simp add: f2 e path_dirname_def is_file_def split: node.splits)
      next
        assume "fs s dest = Some Dir"
        then show ?thesis by (simp add: f2)
      qed
      obtain r2 s3 where wf: "fs_writeFile E dest body s2 = (r2, s3)"
        by (cases "fs_writeFile E dest body s2")
      note c2 = fs_writeFile_cases [OF wf]
      have res: "r = r2" "s1 = s3"
        using a Inr en Inr1 wf by (simp_all add: download_attempt_def axios_get_raw_def)
      have "isl r2" using c2 dir by (cases r2) simp_all
      then obtain e where e: "r2 = Inl e" by (cases r2) simp_all
      have same: "fs s3 = fs s2" using c2 e dir by simp
      have "same_files (fs s) (fs s2)"
        using same_files_ensureDir [of "fs s" "path_dirname dest"] by (simp add: f2)
      then show ?thesis using e res dir same by (simp add: writable_def)
    qed
  qed
  then have fails: "isl r" and still: "\<not> writable (fs s1) dest"
    and files: "same_files (fs s) (fs s1)" by simp_all
  from fails obtain e where e: "r = Inl e" by (cases r) simp_all
  from download_attempt_cases [OF a] obtain evs where
    "trace s1 = trace s @ Get url # evs" "requests evs = []" "delays evs = []"
    "case r of Inl e \<Rightarrow> same_files_but dest (fs s) (fs s1) \<and> written evs = []
      | Inr u \<Rightarrow> written evs = [dest]
          \<and> (\<exists>body f1. same_files (fs s) f1 \<and> fs s1 = f1(dest \<mapsto> File body))"
    by blast
  then show ?thesis using a e still files by auto
qed

text \<open>After \<open>k\<close> failed requests the loop of \<^verbatim>\<open>downloadFile\<close> stands at index \<open>i + k\<close>.\<close>

lemma downloadFile_from_failures:
  "\<forall>j<k. isl (raw_api E (reqs s + j) url) \<Longrightarrow> i + k \<le> retries \<Longrightarrow>
   \<exists>sk. downloadFile_from E url dest retries i s = downloadFile_from E url dest retries (i + k) sk
       \<and> reqs sk = reqs s + k \<and> fs sk = fs s \<and> rms sk = rms s \<and> asked sk = asked s
       \<and> trace sk = trace s @ concat (replicate k [Get url, Delay 1000])"
proof (induction k arbitrary: i s)
  case 0
  show ?case by (rule exI [of _ s]) simp
next
  case (Suc k)
  obtain x s1 where g: "download_attempt E url dest s = (x, s1)"
    by (cases "download_attempt E url dest s")
  from Suc.prems(1) have bad: "isl (raw_api E (reqs s + 0) url)" by blast
  have s1: "s1 = snd (axios_get_raw E url s)" and "isl x"
    using download_attempt_request_failed [of E s url dest] bad g by simp_all
  then obtain e where e: "x = Inl e" by (cases x) simp_all
  have step: "downloadFile_from E url dest retries i s =
              downloadFile_from E url dest retries (Suc i) (sleep 1000 s1)"
    using Suc.prems(2) g e by (simp add: downloadFile_from.simps [of E url dest retries i])
  have "\<forall>j<k. isl (raw_api E (reqs (sleep 1000 s1) + j) url)"
    using Suc.prems(1) by (auto simp add: s1)
  moreover have "Suc i + k \<le> retries" using Suc.prems(2) by simp
  ultimately obtain sk where
    sk: "downloadFile_from E url dest retries (Suc i) (sleep 1000 s1) =
           downloadFile_from E url dest retries (Suc i + k) sk"
       "reqs sk = reqs (sleep 1000 s1) + k" "fs sk = fs (sleep 1000 s1)"
       "rms sk = rms (sleep 1000 s1)" "asked sk = asked (sleep 1000 s1)"
       "trace sk = trace (sleep 1000 s1) @ concat (replicate k [Get url, Delay 1000])"
    using Suc.IH [of "sleep 1000 s1" "Suc i"] by blast
  show ?case
    apply (rule exI [of _ sk])
    using step sk by (simp add: s1)
qed

lemma downloadFile_from_success:
  assumes "raw_api E (reqs s) url = Inr body" and "i \<le> retries"
    and "writable (fs s) dest" and "\<forall>n p. disk_api E n p = None"
  shows "\<exists>s1. downloadFile_from E url dest retries i s = (Inr (), s1)
          \<and> trace s1 = trace s @ [Get url, EnsureDir (path_dirname dest), WriteFile dest body]
          \<and> fs s1 = put_file dest body (fs s)
          \<and> reqs s1 = Suc (reqs s) \<and> rms s1 = rms s \<and> asked s1 = asked s"
proof -
  from download_attempt_ok [OF assms(1,3,4)] obtain s1 where
    s1: "download_attempt E url dest s = (Inr (), s1)"
        "trace s1 = trace s @ [Get url, EnsureDir (path_dirname dest), WriteFile dest body]"
        "fs s1 = put_file dest body (fs s)"
        "reqs s1 = Suc (reqs s)" "rms s1 = rms s" "asked s1 = asked s"
    by blast
  show ?thesis
    apply (rule exI [of _ s1])
    using assms(2) s1 by (simp add: downloadFile_from.simps [of E url dest retries i])
qed

lemma downloadFile_from_last_failure:
  assumes "isl (raw_api E (reqs s) url)"
  shows "downloadFile_from E url dest retries retries s =
           (Inl (Error ''Retry limit reached.''), snd (axios_get_raw E url s))"
proof -
  obtain x s1 where g: "download_attempt E url dest s = (x, s1)"
    by (cases "download_attempt E url dest s")
  have s1: "s1 = snd (axios_get_raw E url s)" and "isl x"
    using download_attempt_request_failed [of E s url dest] assms g by simp_all
  then obtain e where e: "x = Inl e" by (cases x) simp_all
  show ?thesis
    using g e s1 by (simp add: downloadFile_from.simps [of E url dest retries retries])
qed

text \<open>A destination that cannot be written uses up every attempt.\<close>

lemma downloadFile_from_unwritable:
  "\<not> writable (fs s) dest \<Longrightarrow> retries - i = n \<Longrightarrow> i \<le> retries \<Longrightarrow>
   \<exists>s' evs. downloadFile_from E url dest retries i s = (Inl (Error ''Retry limit reached.''), s')
       \<and> trace s' = trace s @ evs \<and> requests evs = replicate (Suc n) url
       \<and> delays evs = replicate n 1000 \<and> written evs = []
       \<and> \<not> writable (fs s') dest \<and> same_files (fs s) (fs s')"
proof (induction n arbitrary: i s)
  case 0
  then have i: "i = retries" by simp
  from download_attempt_unwritable [OF 0(1), of E url] obtain e s1 evs where
    a: "download_attempt E url dest s = (Inl e, s1)" "\<not> writable (fs s1) dest"
       "trace s1 = trace s @ Get url # evs" "requests evs = []" "delays evs = []" "written evs = []"
       "same_files (fs s) (fs s1)"
    by blast
  show ?case
    apply (rule exI [of _ s1])
    apply (rule exI [of _ "Get url # evs"])
    using a i by (simp add: downloadFile_from.simps [of E url dest retries retries])
next
  case (Suc n)
  then have i: "i < retries" by simp
  from download_attempt_unwritable [OF Suc.prems(1), of E url] obtain e s1 evs where
    a: "download_attempt E url dest s = (Inl e, s1)" "\<not> writable (fs s1) dest"
       "trace s1 = trace s @ Get url # evs" "requests evs = []" "delays evs = []" "written evs = []"
       "same_files (fs s) (fs s1)"
    by blast
  have step: "downloadFile_from E url dest retries i s =
              downloadFile_from E url dest retries (Suc i) (sleep 1000 s1)"
    using i a(1) by (simp add: downloadFile_from.simps [of E url dest retries i])
  have "\<not> writable (fs (sleep 1000 s1)) dest" using a(2) by simp
  moreover have "retries - Suc i = n" "Suc i \<le> retries" using Suc.prems by simp_all
  ultimately obtain s' evs' where
    r: "downloadFile_from E url dest retries (Suc i) (sleep 1000 s1) =
          (Inl (Error ''Retry limit reached.''), s')"
       "trace s' = trace (sleep 1000 s1) @ evs'" "requests evs' = replicate (Suc n) url"
       "delays evs' = replicate n 1000" "written evs' = []" "\<not> writable (fs s') dest"
       "same_files (fs (sleep 1000 s1)) (fs s')"
    using Suc.IH [of "sleep 1000 s1" "Suc i"] by blast
  have "same_files (fs s) (fs s')"
    using same_files_trans [OF a(7)] r(7) by simp
  then show ?case
    apply (intro exI [of _ s'])
    apply (intro exI [of _ "Get url # evs @ [Delay 1000] @ evs'"])
    using step r(1-6) a(1-6) by simp
qed

text \<open>
  C2, as the code has it. \<^verbatim>\<open>downloadFile\<close> with the default \<^verbatim>\<open>retries = 3\<close>, started when
  \<open>reqs s\<close> requests have been sent. The \<^verbatim>\<open>try\<close> block holds the request and the local write,
  so an attempt fails when either of them throws.
  \<^item> The destination can be written and the disk is willing: if the next \<open>k < 4\<close> requests
    fail and the one after them answers \<open>body\<close>, the call returns normally after \<open>k + 1\<close>
    requests and \<open>k\<close> waits of 1000 ms, it has written the destination once, with \<open>body\<close>,
    and the destination holds \<open>body\<close>.
  \<^item> If the next four requests all fail, the call throws \<^verbatim>\<open>Error("Retry limit reached.")\<close>
    after exactly four requests (and three waits), has written nothing and leaves the file
    system as it was.
  \<^item> If the destination cannot be written (a component of its parent chain is a file, or
    it is a directory), the call also throws \<^verbatim>\<open>Error("Retry limit reached.")\<close> after exactly
    four requests and three waits, whatever the requests answer, has written nothing, and
    the files on disk are the same as before.
\<close>

theorem downloadFile_retries_then_writes_or_gives_up:
  "(k < 4 \<and> (\<forall>j<k. isl (raw_api E (reqs s + j) (rawUrl r b fp)))
      \<and> raw_api E (reqs s + k) (rawUrl r b fp) = Inr body
      \<and> writable (fs s) dest \<and> (\<forall>n p. disk_api E n p = None) \<longrightarrow>
      fst (downloadFile E r b fp dest 3 s) = Inr ()
      \<and> requests (emitted s (snd (downloadFile E r b fp dest 3 s))) = replicate (k + 1) (rawUrl r b fp)
      \<and> delays (emitted s (snd (downloadFile E r b fp dest 3 s))) = replicate k 1000
      \<and> written (emitted s (snd (downloadFile E r b fp dest 3 s))) = [dest]
      \<and> last (emitted s (snd (downloadFile E r b fp dest 3 s))) = WriteFile dest body
      \<and> fs (snd (downloadFile E r b fp dest 3 s)) = put_file dest body (fs s)
      \<and> fs (snd (downloadFile E r b fp dest 3 s)) dest = Some (File body))
   \<and> ((\<forall>j<4. isl (raw_api E (reqs s + j) (rawUrl r b fp))) \<longrightarrow>
      fst (downloadFile E r b fp dest 3 s) = Inl (Error ''Retry limit reached.'')
      \<and> requests (emitted s (snd (downloadFile E r b fp dest 3 s))) = replicate 4 (rawUrl r b fp)
      \<and> delays (emitted s (snd (downloadFile E r b fp dest 3 s))) = replicate 3 1000
      \<and> written (emitted s (snd (downloadFile E r b fp dest 3 s))) = []
      \<and> fs (snd (downloadFile E r b fp dest 3 s)) = fs s)
   \<and> (\<not> writable (fs s) dest \<longrightarrow>
      fst (downloadFile E r b fp dest 3 s) = Inl (Error ''Retry limit reached.'')
      \<and> requests (emitted s (snd (downloadFile E r b fp dest 3 s))) = replicate 4 (rawUrl r b fp)
      \<and> delays (emitted s (snd (downloadFile E r b fp dest 3 s))) = replicate 3 1000
      \<and> written (emitted s (snd (downloadFile E r b fp dest 3 s))) = []
      \<and> same_files (fs s) (fs (snd (downloadFile E r b fp dest 3 s))))"
proof (intro conjI impI)
  let ?url = "rawUrl r b fp"
  assume a: "k < 4 \<and> (\<forall>j<k. isl (raw_api E (reqs s + j) ?url)) \<and> raw_api E (reqs s + k) ?url = Inr body
             \<and> writable (fs s) dest \<and> (\<forall>n p. disk_api E n p = None)"
  then have "\<forall>j<k. isl (raw_api E (reqs s + j) ?url)" "0 + k \<le> 3" by simp_all
  from downloadFile_from_failures [OF this, of dest] obtain sk where
    sk: "downloadFile_from E ?url dest 3 0 s = downloadFile_from E ?url dest 3 k sk"
       "reqs sk = reqs s + k" "fs sk = fs s"
       "trace sk = trace s @ concat (replicate k [Get ?url, Delay 1000])"
    by auto
  have ok: "raw_api E (reqs sk) ?url = Inr body" "k \<le> 3" "writable (fs sk) dest"
    "\<forall>n p. disk_api E n p = None"
    using a sk(2,3) by simp_all
  from downloadFile_from_success [OF ok] obtain s1 where
    s1: "downloadFile_from E ?url dest 3 k sk = (Inr (), s1)"
        "trace s1 = trace sk @ [Get ?url, EnsureDir (path_dirname dest), WriteFile dest body]"
        "fs s1 = put_file dest body (fs sk)"
    by blast
  have res: "downloadFile E r b fp dest 3 s = (Inr (), s1)"
    using sk(1) s1(1) by (simp add: downloadFile_def)
  show "fst (downloadFile E r b fp dest 3 s) = Inr ()"
    "requests (emitted s (snd (downloadFile E r b fp dest 3 s))) = replicate (k + 1) ?url"
    "delays (emitted s (snd (downloadFile E r b fp dest 3 s))) = replicate k 1000"
    "written (emitted s (snd (downloadFile E r b fp dest 3 s))) = [dest]"
    "last (emitted s (snd (downloadFile E r b fp dest 3 s))) = WriteFile dest body"
    "fs (snd (downloadFile E r b fp dest 3 s)) = put_file dest body (fs s)"
    "fs (snd (downloadFile E r b fp dest 3 s)) dest = Some (File body)"
    by (simp_all add: res s1(2,3) sk(3,4) emitted_def replicate_snoc put_file_def)
next
  let ?url = "rawUrl r b fp"
  assume a: "\<forall>j<4. isl (raw_api E (reqs s + j) ?url)"
  then have "\<forall>j<3. isl (raw_api E (reqs s + j) ?url)" "0 + 3 \<le> (3::nat)" by simp_all
  from downloadFile_from_failures [OF this, of dest] obtain sk where
    sk: "downloadFile_from E ?url dest 3 0 s = downloadFile_from E ?url dest 3 3 sk"
       "reqs sk = reqs s + 3" "fs sk = fs s"
       "trace sk = trace s @ concat (replicate 3 [Get ?url, Delay 1000])"
    by auto
  have bad: "isl (raw_api E (reqs sk) ?url)" using a sk(2) by simp
  have r4: "replicate 3 x @ [x] = replicate 4 x" for x :: string
    using replicate_snoc [of 3 x] by simp
  have res: "downloadFile E r b fp dest 3 s =
    (Inl (Error ''Retry limit reached.''), snd (axios_get_raw E ?url sk))"
    using sk(1) downloadFile_from_last_failure [OF bad] by (simp add: downloadFile_def)
  show "fst (downloadFile E r b fp dest 3 s) = Inl (Error ''Retry limit reached.'')"
    "requests (emitted s (snd (downloadFile E r b fp dest 3 s))) = replicate 4 ?url"
    "delays (emitted s (snd (downloadFile E r b fp dest 3 s))) = replicate 3 1000"
    "written (emitted s (snd (downloadFile E r b fp dest 3 s))) = []"
    "fs (snd (downloadFile E r b fp dest 3 s)) = fs s"
    by (simp_all add: res sk emitted_def r4)
next
  let ?url = "rawUrl r b fp"
  assume "\<not> writable (fs s) dest"
  from downloadFile_from_unwritable [OF this refl, of 0 3 E ?url] obtain s' evs where
    u: "downloadFile_from E ?url dest 3 0 s = (Inl (Error ''Retry limit reached.''), s')"
       "trace s' = trace s @ evs" "requests evs = replicate (Suc (3 - 0)) ?url"
       "delays evs = replicate (3 - 0) 1000" "written evs = []" "same_files (fs s) (fs s')"
    by auto
  have res: "downloadFile E r b fp dest 3 s = (Inl (Error ''Retry limit reached.''), s')"
    using u(1) by (simp add: downloadFile_def)
  show "fst (downloadFile E r b fp dest 3 s) = Inl (Error ''Retry limit reached.'')"
    "requests (emitted s (snd (downloadFile E r b fp dest 3 s))) = replicate 4 ?url"
    "delays (emitted s (snd (downloadFile E r b fp dest 3 s))) = replicate 3 1000"
    "written (emitted s (snd (downloadFile E r b fp dest 3 s))) = []"
    "same_files (fs s) (fs (snd (downloadFile E r b fp dest 3 s)))"
    using u(3,4,5,6) by (simp_all add: res u(2) emitted_def)
qed

theorem downloadFile_retries_then_writes_or_gives_up_witness:
  "fst (downloadFile flaky_env ''org/demo'' ''main'' [''index.js''] [''app'', ''demo'', ''index.js''] 3
          fresh_state) = Inr ()
   \<and> delays (emitted fresh_state (snd (downloadFile flaky_env ''org/demo'' ''main'' [''index.js'']
          [''app'', ''demo'', ''index.js''] 3 fresh_state))) = replicate 2 1000
   \<and> fs (snd (downloadFile flaky_env ''org/demo'' ''main'' [''index.js'']
          [''app'', ''demo'', ''index.js''] 3 fresh_state)) [''app'', ''demo'', ''index.js'']
        = Some (File ''data'')
   \<and> fst (downloadFile offline_env ''org/demo'' ''main'' [''index.js''] [''app'', ''demo'', ''index.js''] 3
          fresh_state) = Inl (Error ''Retry limit reached.'')
   \<and> requests (emitted fresh_state (snd (downloadFile offline_env ''org/demo'' ''main'' [''index.js'']
          [''app'', ''demo'', ''index.js''] 3 fresh_state)))
        = replicate 4 (rawUrl ''org/demo'' ''main'' [''index.js''])
   \<and> written (emitted fresh_state (snd (downloadFile offline_env ''org/demo'' ''main'' [''index.js'']
          [''app'', ''demo'', ''index.js''] 3 fresh_state))) = []
   \<and> \<not> writable (fs blocked_state) [''app'', ''demo'', ''index.js'']
   \<and> fst (downloadFile demo_env ''org/demo'' ''main'' [''index.js''] [''app'', ''demo'', ''index.js''] 3
          blocked_state) = Inl (Error ''Retry limit reached.'')
   \<and> requests (emitted blocked_state (snd (downloadFile demo_env ''org/demo'' ''main'' [''index.js'']
          [''app'', ''demo'', ''index.js''] 3 blocked_state)))
        = replicate 4 (rawUrl ''org/demo'' ''main'' [''index.js''])"
proof -
  have h1: "(2::nat) < 4 \<and> (\<forall>j<2. isl (raw_api flaky_env (reqs fresh_state + j) u))
            \<and> raw_api flaky_env (reqs fresh_state + 2) u = Inr ''data''
            \<and> writable (fs fresh_state) [''app'', ''demo'', ''index.js'']
            \<and> (\<forall>n p. disk_api flaky_env n p = None)" for u
    by (simp add: flaky_env_def demo_env_def fresh_state_def writable_def path_dirname_def is_file_def)
  have h2: "\<forall>j<4. isl (raw_api offline_env (reqs fresh_state + j) u)" for u
    by (simp add: offline_env_def)
  have h3: "\<not> writable (fs blocked_state) [''app'', ''demo'', ''index.js'']"
    by (simp add: blocked_state_def writable_def path_dirname_def is_file_def)
  note t1 = downloadFile_retries_then_writes_or_gives_up [of 2 flaky_env fresh_state "''org/demo''"
        "''main''" "[''index.js'']" "''data''" "[''app'', ''demo'', ''index.js'']",
        THEN conjunct1, THEN mp, OF h1]
  note t2 = downloadFile_retries_then_writes_or_gives_up [of 0 offline_env fresh_state "''org/demo''"
        "''main''" "[''index.js'']" "''data''" "[''app'', ''demo'', ''index.js'']",
        THEN conjunct2, THEN conjunct1, THEN mp, OF h2]
  note t3 = downloadFile_retries_then_writes_or_gives_up [of 0 demo_env blocked_state "''org/demo''"
        "''main''" "[''index.js'']" "''data''" "[''app'', ''demo'', ''index.js'']",
        THEN conjunct2, THEN conjunct2, THEN mp, OF h3]
  show ?thesis
    using t1 t2 t3 h3 by blast
qed

text \<open>
  C2 as stated fails where the destination cannot be written: where the folder should be
  there is a file, the first request is answered, and still \<^verbatim>\<open>downloadFile\<close> waits three
  times, sends four requests and throws, with nothing written.
\<close>

theorem downloadFile_blocked_destination_counterexample:
  "raw_api demo_env (reqs blocked_state) (rawUrl ''org/demo'' ''main'' [''index.js'']) = Inr ''data''
   \<and> fst (downloadFile demo_env ''org/demo'' ''main'' [''index.js''] [''app'', ''demo'', ''index.js''] 3
          blocked_state) = Inl (Error ''Retry limit reached.'')
   \<and> delays (emitted blocked_state (snd (downloadFile demo_env ''org/demo'' ''main'' [''index.js'']
          [''app'', ''demo'', ''index.js''] 3 blocked_state))) = [1000, 1000, 1000]
   \<and> written (emitted blocked_state (snd (downloadFile demo_env ''org/demo'' ''main'' [''index.js'']
          [''app'', ''demo'', ''index.js''] 3 blocked_state))) = []
   \<and> fs (snd (downloadFile demo_env ''org/demo'' ''main'' [''index.js'']
          [''app'', ''demo'', ''index.js''] 3 blocked_state)) [''app'', ''demo'', ''index.js''] = None"
  by (simp add: run_defs blocked_state_def)

text \<open>After \<open>k\<close> failed deletions that were not the last attempt, \<^verbatim>\<open>removeWithRetries\<close> stands at index \<open>i + k\<close>.\<close>

lemma removeWithRetries_from_failures:
  "\<forall>j<k. rm_api E (rms s + j) p \<noteq> Removed \<Longrightarrow> i + k < retries \<Longrightarrow>
   \<exists>sk. removeWithRetries_from E p retries d i s = removeWithRetries_from E p retries d (i + k) sk
       \<and> rms sk = rms s + k \<and> fs sk p = fs s p \<and> reqs sk = reqs s \<and> asked sk = asked s
       \<and> trace sk = trace s @ concat (replicate k [Remove p, Delay d])"
proof (induction k arbitrary: i s)
  case 0
  show ?case by (rule exI [of _ s]) simp
next
  case (Suc k)
  obtain x s1 where g: "fs_remove E p s = (x, s1)" by (cases "fs_remove E p s")
  have s1: "s1 = snd (fs_remove E p s)" using g by simp
  from Suc.prems(1) have "rm_api E (rms s + 0) p \<noteq> Removed" by blast
  then obtain e lost where f: "rm_api E (rms s) p = RemoveFailed e lost"
    by (cases "rm_api E (rms s) p") simp_all
  have x: "x = Inl e" and keep: "fs s1 p = fs s p"
    using fs_remove_failed [OF f] g by simp_all
  have "i < retries" "i \<noteq> retries - 1" using Suc.prems(2) by arith+
  then have step: "removeWithRetries_from E p retries d i s =
              removeWithRetries_from E p retries d (Suc i) (sleep d s1)"
    using g x by (simp add: removeWithRetries_from.simps [of E p retries d i])
  have "\<forall>j<k. rm_api E (rms (sleep d s1) + j) p \<noteq> Removed"
    using Suc.prems(1) by (auto simp add: s1)
  moreover have "Suc i + k < retries" using Suc.prems(2) by simp
  ultimately obtain sk where
    sk: "removeWithRetries_from E p retries d (Suc i) (sleep d s1) =
           removeWithRetries_from E p retries d (Suc i + k) sk"
       "rms sk = rms (sleep d s1) + k" "fs sk p = fs (sleep d s1) p"
       "reqs sk = reqs (sleep d s1)" "asked sk = asked (sleep d s1)"
       "trace sk = trace (sleep d s1) @ concat (replicate k [Remove p, Delay d])"
    using Suc.IH [of "sleep d s1" "Suc i"] by blast
  show ?case
    apply (rule exI [of _ sk])
    using step sk keep by (simp add: s1)
qed

lemma removeWithRetries_from_success:
  assumes "rm_api E (rms s) p = Removed" and "i < retries"
  shows "removeWithRetries_from E p retries d i s = (Inr (), snd (fs_remove E p s))"
  using assms by (simp add: removeWithRetries_from.simps [of E p retries d i] fs_remove_def Let_def)

lemma removeWithRetries_from_last_failure:
  assumes "rm_api E (rms s) p = RemoveFailed e lost" and "Suc i = retries"
  shows "removeWithRetries_from E p retries d i s = (Inl e, snd (fs_remove E p s))"
  using assms by (auto simp add: removeWithRetries_from.simps [of E p retries d i] fs_remove_def Let_def)

lemma removeWithRetries_succeeds:
  assumes "m < 5" and "\<forall>j<m. rm_api E (rms s + j) p \<noteq> Removed" and "rm_api E (rms s + m) p = Removed"
  shows "\<exists>s'. removeWithRetries E p 5 500 s = (Inr (), s')
        \<and> trace s' = trace s @ concat (replicate m [Remove p, Delay 500]) @ [Remove p]
        \<and> (\<forall>q. prefix p q \<longrightarrow> fs s' q = None) \<and> reqs s' = reqs s \<and> asked s' = asked s"
proof -
  from removeWithRetries_from_failures [OF assms(2), where i = 0 and retries = 5 and d = 500] assms(1) obtain sk where
    sk: "removeWithRetries_from E p 5 500 0 s = removeWithRetries_from E p 5 500 m sk"
       "rms sk = rms s + m" "reqs sk = reqs s" "asked sk = asked s"
       "trace sk = trace s @ concat (replicate m [Remove p, Delay 500])"
    by auto
  have ok: "rm_api E (rms sk) p = Removed" using assms(3) sk(2) by simp
  show ?thesis
    apply (rule exI [of _ "snd (fs_remove E p sk)"])
    using sk removeWithRetries_from_success [OF ok assms(1)] fs_remove_clean [OF ok]
    by (simp add: removeWithRetries_def)
qed

lemma removeWithRetries_gives_up:
  assumes "\<forall>j<4. rm_api E (rms s + j) p \<noteq> Removed" and "rm_api E (rms s + 4) p = RemoveFailed e lost"
  shows "\<exists>s'. removeWithRetries E p 5 500 s = (Inl e, s')
        \<and> trace s' = trace s @ concat (replicate 4 [Remove p, Delay 500]) @ [Remove p]
        \<and> fs s' p = fs s p \<and> reqs s' = reqs s \<and> asked s' = asked s"
proof -
  from removeWithRetries_from_failures [OF assms(1), where i = 0 and retries = 5 and d = 500] obtain sk where
    sk: "removeWithRetries_from E p 5 500 0 s = removeWithRetries_from E p 5 500 4 sk"
       "rms sk = rms s + 4" "reqs sk = reqs s" "asked sk = asked s" "fs sk p = fs s p"
       "trace sk = trace s @ concat (replicate 4 [Remove p, Delay 500])"
    by auto
  have bad: "rm_api E (rms sk) p = RemoveFailed e lost" using assms(2) sk(2) by simp
  have "Suc 4 = (5::nat)" by simp
  from removeWithRetries_from_last_failure [OF bad this]
  show ?thesis
    apply (intro exI [of _ "snd (fs_remove E p sk)"])
    using sk fs_remove_failed [OF bad] by (simp add: removeWithRetries_def)
qed

section \<open>Uninstall\<close>

lemma logged_of_retries [simp]:
  "logged (concat (replicate k [Get url, Delay ms])) = []"
  "logged (concat (replicate k [Remove p, Delay ms])) = []"
  by (induction k) simp_all

lemma handleUninstall_confirmed:
  assumes "fs_existsSync (targetFolder E it) s" and "answers E (asked s)"
  shows "handleUninstall E it s =
     (case removeWithRetries E (targetFolder E it) 5 500 (snd (prompts_confirm E (AskUninstall (name it)) s)) of
        (Inr u, s2) \<Rightarrow> (Inr (), console_log (MsgUninstalled (name it)) s2)
      | (Inl err, s2) \<Rightarrow> (Inr (), console_log (MsgFailedUninstall (name it) (message err)) s2))"
  using assms by (simp add: handleUninstall_def prompts_confirm_def Let_def)

lemma handleUninstall_cjs_confirmed:
  assumes "fs_existsSync (targetFolder E it) s" and "answers E (asked s)"
  shows "handleUninstall_cjs E it s =
     (case fs_remove E (targetFolder E it) (snd (prompts_confirm E (AskUninstall (name it)) s)) of
        (Inl err, s2) \<Rightarrow> (Inl err, s2)
      | (Inr u, s2) \<Rightarrow> (Inr (), console_log (MsgUninstalled (name it)) s2))"
  using assms by (simp add: handleUninstall_cjs_def prompts_confirm_def Let_def)

text \<open>
  C4, as the code has it. The entry is installed and the user confirms. In \<^verbatim>\<open>part_000\<close> the
  delete runs in \<^verbatim>\<open>removeWithRetries\<close>, at most 5 times with 500 ms between attempts:
  \<^item> \<open>m < 5\<close> failed deletes and then a successful one: \<^verbatim>\<open>handleUninstall\<close> has tried \<open>m + 1\<close>
    times, waited \<open>m\<close> times 500 ms, printed the success line, and the folder with all below
    it is gone;
  \<^item> five failed deletes: \<^verbatim>\<open>removeWithRetries\<close> throws the error of the fifth, after 5 attempts
    and 4 waits, and the folder is still there; \<^verbatim>\<open>handleUninstall\<close> catches that error, prints
    the failure line and returns normally.
  In \<^verbatim>\<open>index.cjs\<close> there is one \<^verbatim>\<open>fs.remove\<close> and no retry: its failure is thrown by
  \<^verbatim>\<open>handleUninstall\<close> at once, the folder still there.
\<close>

theorem uninstall_retries_delete_and_reports_failure:
  assumes "fs_existsSync (targetFolder E it) s" and "answers E (asked s)"
  shows
    "(m < 5 \<and> (\<forall>j<m. rm_api E (rms s + j) (targetFolder E it) \<noteq> Removed)
        \<and> rm_api E (rms s + m) (targetFolder E it) = Removed \<longrightarrow>
        fst (handleUninstall E it s) = Inr ()
        \<and> removed (emitted s (snd (handleUninstall E it s))) = replicate (m + 1) (targetFolder E it)
        \<and> delays (emitted s (snd (handleUninstall E it s))) = replicate m 500
        \<and> logged (emitted s (snd (handleUninstall E it s))) = [MsgUninstalled (name it)]
        \<and> (\<forall>q. prefix (targetFolder E it) q \<longrightarrow> fs (snd (handleUninstall E it s)) q = None))
     \<and> ((\<forall>j<4. rm_api E (rms s + j) (targetFolder E it) \<noteq> Removed)
        \<and> rm_api E (rms s + 4) (targetFolder E it) = RemoveFailed e lost \<longrightarrow>
        fst (removeWithRetries E (targetFolder E it) 5 500 s) = Inl e
        \<and> fs_existsSync (targetFolder E it) (snd (removeWithRetries E (targetFolder E it) 5 500 s))
        \<and> fst (handleUninstall E it s) = Inr ()
        \<and> removed (emitted s (snd (handleUninstall E it s))) = replicate 5 (targetFolder E it)
        \<and> delays (emitted s (snd (handleUninstall E it s))) = replicate 4 500
        \<and> logged (emitted s (snd (handleUninstall E it s))) = [MsgFailedUninstall (name it) (message e)]
        \<and> fs_existsSync (targetFolder E it) (snd (handleUninstall E it s)))
     \<and> (rm_api E (rms s) (targetFolder E it) = RemoveFailed e lost \<longrightarrow>
        fst (handleUninstall_cjs E it s) = Inl e
        \<and> removed (emitted s (snd (handleUninstall_cjs E it s))) = [targetFolder E it]
        \<and> delays (emitted s (snd (handleUninstall_cjs E it s))) = []
        \<and> fs_existsSync (targetFolder E it) (snd (handleUninstall_cjs E it s)))"
proof (intro conjI impI)
  let ?T = "targetFolder E it"
  let ?s1 = "snd (prompts_confirm E (AskUninstall (name it)) s)"
  assume a: "m < 5 \<and> (\<forall>j<m. rm_api E (rms s + j) ?T \<noteq> Removed) \<and> rm_api E (rms s + m) ?T = Removed"
  then have "m < 5" "\<forall>j<m. rm_api E (rms ?s1 + j) ?T \<noteq> Removed" "rm_api E (rms ?s1 + m) ?T = Removed"
    by simp_all
  from removeWithRetries_succeeds [OF this] obtain s2 where
    s2: "removeWithRetries E ?T 5 500 ?s1 = (Inr (), s2)"
        "trace s2 = trace ?s1 @ concat (replicate m [Remove ?T, Delay 500]) @ [Remove ?T]"
        "\<forall>q. prefix ?T q \<longrightarrow> fs s2 q = None"
    by blast
  have res: "handleUninstall E it s = (Inr (), console_log (MsgUninstalled (name it)) s2)"
    using handleUninstall_confirmed [OF assms] s2(1) by simp
  show "fst (handleUninstall E it s) = Inr ()"
    "removed (emitted s (snd (handleUninstall E it s))) = replicate (m + 1) ?T"
    "delays (emitted s (snd (handleUninstall E it s))) = replicate m 500"
    "logged (emitted s (snd (handleUninstall E it s))) = [MsgUninstalled (name it)]"
    "\<forall>q. prefix ?T q \<longrightarrow> fs (snd (handleUninstall E it s)) q = None"
    using s2(3) by (simp_all add: res s2(2) emitted_def replicate_snoc)
next
  let ?T = "targetFolder E it"
  let ?s1 = "snd (prompts_confirm E (AskUninstall (name it)) s)"
  assume a: "(\<forall>j<4. rm_api E (rms s + j) ?T \<noteq> Removed) \<and> rm_api E (rms s + 4) ?T = RemoveFailed e lost"
  then have h: "\<forall>j<4. rm_api E (rms s + j) ?T \<noteq> Removed" "rm_api E (rms s + 4) ?T = RemoveFailed e lost"
    by simp_all
  from removeWithRetries_gives_up [OF h] obtain s0 where
    s0: "removeWithRetries E ?T 5 500 s = (Inl e, s0)" "fs s0 ?T = fs s ?T"
    by blast
  have h1: "\<forall>j<4. rm_api E (rms ?s1 + j) ?T \<noteq> Removed" "rm_api E (rms ?s1 + 4) ?T = RemoveFailed e lost"
    using h by simp_all
  from removeWithRetries_gives_up [OF h1] obtain s2 where
    s2: "removeWithRetries E ?T 5 500 ?s1 = (Inl e, s2)"
        "trace s2 = trace ?s1 @ concat (replicate 4 [Remove ?T, Delay 500]) @ [Remove ?T]"
        "fs s2 ?T = fs ?s1 ?T"
    by blast
  have res: "handleUninstall E it s = (Inr (), console_log (MsgFailedUninstall (name it) (message e)) s2)"
    using handleUninstall_confirmed [OF assms] s2(1) by simp
  have r5: "replicate 4 x @ [x] = replicate 5 x" for x :: path
    using replicate_snoc [of 4 x] by simp
  show "fst (removeWithRetries E ?T 5 500 s) = Inl e"
    "fs_existsSync ?T (snd (removeWithRetries E ?T 5 500 s))"
    "fst (handleUninstall E it s) = Inr ()"
    "removed (emitted s (snd (handleUninstall E it s))) = replicate 5 ?T"
    "delays (emitted s (snd (handleUninstall E it s))) = replicate 4 500"
    "logged (emitted s (snd (handleUninstall E it s))) = [MsgFailedUninstall (name it) (message e)]"
    "fs_existsSync ?T (snd (handleUninstall E it s))"
    using assms(1) s0 s2(3) by (simp_all add: res s2(2) emitted_def r5 fs_existsSync_def)
next
  let ?T = "targetFolder E it"
  let ?s1 = "snd (prompts_confirm E (AskUninstall (name it)) s)"
  assume "rm_api E (rms s) ?T = RemoveFailed e lost"
  then have f: "rm_api E (rms ?s1) ?T = RemoveFailed e lost" by simp
  obtain x s2 where g: "fs_remove E ?T ?s1 = (x, s2)" by (cases "fs_remove E ?T ?s1")
  have x: "x = Inl e" and s2: "s2 = snd (fs_remove E ?T ?s1)" and keep: "fs s2 ?T = fs ?s1 ?T"
    using fs_remove_failed [OF f] g by simp_all
  have res: "handleUninstall_cjs E it s = (Inl e, s2)"
    using handleUninstall_cjs_confirmed [OF assms] g x by simp
  show "fst (handleUninstall_cjs E it s) = Inl e"
    "removed (emitted s (snd (handleUninstall_cjs E it s))) = [?T]"
    "delays (emitted s (snd (handleUninstall_cjs E it s))) = []"
    "fs_existsSync ?T (snd (handleUninstall_cjs E it s))"
    using assms(1) keep by (simp_all add: res emitted_def fs_existsSync_def) (simp_all add: s2)
qed


theorem uninstall_retries_delete_and_reports_failure_witness:
  "fst (handleUninstall briefly_busy_env demo_item installed_state) = Inr ()
   \<and> removed (emitted installed_state (snd (handleUninstall briefly_busy_env demo_item installed_state)))
        = replicate 3 [''app'', ''demo'']
   \<and> delays (emitted installed_state (snd (handleUninstall briefly_busy_env demo_item installed_state)))
        = replicate 2 500
   \<and> fs (snd (handleUninstall briefly_busy_env demo_item installed_state)) [''app'', ''demo'', ''old.txt'']
        = None
   \<and> fst (removeWithRetries busy_env [''app'', ''demo''] 5 500 installed_state) = Inl (Error ''EBUSY'')
   \<and> fst (handleUninstall busy_env demo_item installed_state) = Inr ()
   \<and> logged (emitted installed_state (snd (handleUninstall busy_env demo_item installed_state)))
        = [MsgFailedUninstall ''Demo'' ''EBUSY'']
   \<and> fs_existsSync [''app'', ''demo''] (snd (handleUninstall busy_env demo_item installed_state))
   \<and> fst (handleUninstall_cjs busy_env demo_item installed_state) = Inl (Error ''EBUSY'')
   \<and> removed (emitted installed_state (snd (handleUninstall_cjs busy_env demo_item installed_state)))
        = [[''app'', ''demo'']]"
proof -
  have e1: "fs_existsSync (targetFolder briefly_busy_env demo_item) installed_state"
    and e2: "fs_existsSync (targetFolder busy_env demo_item) installed_state"
    by simp_all
  have y1: "answers briefly_busy_env (asked installed_state)"
    and y2: "answers busy_env (asked installed_state)"
    by (simp_all add: briefly_busy_env_def busy_env_def demo_env_def)
  have h1: "(2::nat) < 5 \<and> (\<forall>j<2. rm_api briefly_busy_env (rms installed_state + j)
                (targetFolder briefly_busy_env demo_item) \<noteq> Removed)
            \<and> rm_api briefly_busy_env (rms installed_state + 2) (targetFolder briefly_busy_env demo_item)
                = Removed"
    by (simp add: briefly_busy_env_def)
  have h2: "(\<forall>j<4. rm_api busy_env (rms installed_state + j) (targetFolder busy_env demo_item) \<noteq> Removed)
            \<and> rm_api busy_env (rms installed_state + 4) (targetFolder busy_env demo_item)
                = RemoveFailed (Error ''EBUSY'') {}"
    by (simp add: busy_env_def)
  have h3: "rm_api busy_env (rms installed_state) (targetFolder busy_env demo_item)
                = RemoveFailed (Error ''EBUSY'') {}"
    by (simp add: busy_env_def)
  note t1 = uninstall_retries_delete_and_reports_failure [OF e1 y1, of 2, THEN conjunct1, THEN mp, OF h1]
  note t2 = uninstall_retries_delete_and_reports_failure [OF e2 y2, THEN conjunct2, THEN conjunct1,
              THEN mp, OF h2]
  note t3 = uninstall_retries_delete_and_reports_failure [OF e2 y2, THEN conjunct2, THEN conjunct2,
              THEN mp, OF h3]
  have n: "name demo_item = ''Demo''" by (simp add: demo_item_def)
  from t1 have "fs (snd (handleUninstall briefly_busy_env demo_item installed_state))
                  [''app'', ''demo'', ''old.txt''] = None"
    by simp
  with t1 t2 t3 show ?thesis by (simp add: n)
qed

text \<open>
  C4 as stated fails at \<^verbatim>\<open>handleUninstall\<close> of \<^verbatim>\<open>part_000\<close>: with a folder that cannot be
  deleted, all five attempts are made and fail, and the call does not throw.
\<close>

theorem uninstall_failure_not_raised_counterexample:
  "fs_existsSync (targetFolder busy_env demo_item) installed_state
   \<and> answers busy_env (asked installed_state)
   \<and> removed (emitted installed_state (snd (handleUninstall busy_env demo_item installed_state)))
        = replicate 5 [''app'', ''demo'']
   \<and> fst (removeWithRetries busy_env [''app'', ''demo''] 5 500
          (snd (prompts_confirm busy_env (AskUninstall ''Demo'') installed_state))) = Inl (Error ''EBUSY'')
   \<and> \<not> isl (fst (handleUninstall busy_env demo_item installed_state))"
proof -
  let ?s1 = "snd (prompts_confirm busy_env (AskUninstall (name demo_item)) installed_state)"
  have e2: "fs_existsSync (targetFolder busy_env demo_item) installed_state" by simp
  have y2: "answers busy_env (asked installed_state)"
    by (simp add: busy_env_def demo_env_def)
  have h: "\<forall>j<4. rm_api busy_env (rms ?s1 + j) [''app'', ''demo''] \<noteq> Removed"
    "rm_api busy_env (rms ?s1 + 4) [''app'', ''demo''] = RemoveFailed (Error ''EBUSY'') {}"
    by (simp_all add: busy_env_def)
  from removeWithRetries_gives_up [OF h] obtain s2 where
    s2: "removeWithRetries busy_env [''app'', ''demo''] 5 500 ?s1 = (Inl (Error ''EBUSY''), s2)"
        "trace s2 = trace ?s1 @ concat (replicate 4 [Remove [''app'', ''demo''], Delay 500])
                      @ [Remove [''app'', ''demo'']]"
    by blast
  have res: "handleUninstall busy_env demo_item installed_state =
               (Inr (), console_log (MsgFailedUninstall (name demo_item) ''EBUSY'') s2)"
    using handleUninstall_confirmed [OF e2 y2] s2(1) by simp
  have r5: "replicate 4 x @ [x] = replicate 5 x" for x :: path
    using replicate_snoc [of 4 x] by simp
  have n: "name demo_item = ''Demo''" by (simp add: demo_item_def)
  show ?thesis
    using e2 y2 s2(1) by (simp add: res s2(2) emitted_def r5 n)
qed

section \<open>Downloading\<close>

text \<open>\<^verbatim>\<open>downloadFile\<close>, however the requests and the disk answer.\<close>

lemma downloadFile_from_cases:
  "retries - i = n \<Longrightarrow> i \<le> retries \<Longrightarrow> downloadFile_from E url dest retries i s = (r, s') \<Longrightarrow>
   \<exists>evs. trace s' = trace s @ evs \<and> logged evs = [] \<and> removed evs = [] \<and>
         rms s' = rms s \<and> asked s' = asked s \<and> reqs s \<le> reqs s' \<and>
     (case r of Inl e \<Rightarrow> e = Error ''Retry limit reached.'' \<and> same_files_but dest (fs s) (fs s')
                          \<and> written evs = []
      | Inr u \<Rightarrow> written evs = [dest]
          \<and> (\<exists>body f1. same_files (fs s) f1 \<and> fs s' = f1(dest \<mapsto> File body)))"
proof (induction n arbitrary: i s)
  case 0
  then have i: "i = retries" by simp
  obtain x s1 where g: "download_attempt E url dest s = (x, s1)"
    by (cases "download_attempt E url dest s")
  from download_attempt_cases [OF g] obtain evs where
    a: "reqs s1 = Suc (reqs s)" "rms s1 = rms s" "asked s1 = asked s"
       "trace s1 = trace s @ Get url # evs" "logged evs = []" "removed evs = []"
       "case x of Inl e \<Rightarrow> same_files_but dest (fs s) (fs s1) \<and> written evs = []
        | Inr u \<Rightarrow> written evs = [dest]
            \<and> (\<exists>body f1. same_files (fs s) f1 \<and> fs s1 = f1(dest \<mapsto> File body))"
    by blast
  show ?case
  proof (cases x)
    case (Inl e)
    with 0 g i have "r = Inl (Error ''Retry limit reached.'')" "s' = s1"
      by (simp_all add: downloadFile_from.simps [of E url dest retries retries])
    then show ?thesis
      using a Inl by (intro exI [of _ "Get url # evs"]) simp
  next
    case (Inr u)
    with 0 g i have "r = Inr ()" "s' = s1"
      by (simp_all add: downloadFile_from.simps [of E url dest retries retries])
    then show ?thesis
      using a Inr by (intro exI [of _ "Get url # evs"]) simp
  qed
next
  case (Suc n)
  then have i: "i < retries" by simp
  obtain x s1 where g: "download_attempt E url dest s = (x, s1)"
    by (cases "download_attempt E url dest s")
  from download_attempt_cases [OF g] obtain evs where
    a: "reqs s1 = Suc (reqs s)" "rms s1 = rms s" "asked s1 = asked s"
       "trace s1 = trace s @ Get url # evs" "logged evs = []" "removed evs = []"
       "case x of Inl e \<Rightarrow> same_files_but dest (fs s) (fs s1) \<and> written evs = []
        | Inr u \<Rightarrow> written evs = [dest]
            \<and> (\<exists>body f1. same_files (fs s) f1 \<and> fs s1 = f1(dest \<mapsto> File body))"
    by blast
  show ?case
  proof (cases x)
    case (Inl e)
    with Suc.prems g i have rec: "downloadFile_from E url dest retries (Suc i) (sleep 1000 s1) = (r, s')"
      by (simp add: downloadFile_from.simps [of E url dest retries i])
    have "retries - Suc i = n" "Suc i \<le> retries" using Suc.prems by simp_all
    from Suc.IH [OF this rec] obtain evs' where
      e: "trace s' = trace (sleep 1000 s1) @ evs'" "logged evs' = []" "removed evs' = []"
        "rms s' = rms (sleep 1000 s1)" "asked s' = asked (sleep 1000 s1)" "reqs (sleep 1000 s1) \<le> reqs s'"
        "(case r of Inl e \<Rightarrow> e = Error ''Retry limit reached.''
                               \<and> same_files_but dest (fs (sleep 1000 s1)) (fs s')
                               \<and> written evs' = []
          | Inr u \<Rightarrow> written evs' = [dest]
              \<and> (\<exists>body f1. same_files (fs (sleep 1000 s1)) f1 \<and> fs s' = f1(dest \<mapsto> File body)))"
      by blast
    from a(7) Inl have sf: "same_files_but dest (fs s) (fs s1)" and w: "written evs = []"
      by simp_all
    have tr: "same_files_but dest (fs s1) f \<Longrightarrow> same_files_but dest (fs s) f" for f
      using same_files_but_trans [OF sf] by simp
    have cv: "\<exists>f2. same_files (fs s) f2 \<and> f1(dest \<mapsto> File body) = f2(dest \<mapsto> File body)"
      if "same_files (fs s1) f1" for f1 body
      using same_files_but_covered [OF sf that, of "File body"] by metis
    show ?thesis
    proof (cases r)
      case Inl2: (Inl e2)
      show ?thesis
        apply (rule exI [of _ "Get url # evs @ [Delay 1000] @ evs'"])
        using e a(1-6) w tr Inl2 by simp
    next
      case Inr2: (Inr u2)
      from e(7) Inr2 obtain body f1 where
        b: "written evs' = [dest]" "same_files (fs s1) f1" "fs s' = f1(dest \<mapsto> File body)"
        by auto
      from cv [OF b(2), of body] obtain f2 where
        f2: "same_files (fs s) f2" "f1(dest \<mapsto> File body) = f2(dest \<mapsto> File body)"
        by blast
      have "\<exists>body f1. same_files (fs s) f1 \<and> fs s' = f1(dest \<mapsto> File body)"
        using f2 b(3) by auto
      then show ?thesis
        apply (intro exI [of _ "Get url # evs @ [Delay 1000] @ evs'"])
        using e(1-6) a(1-6) w b(1) Inr2 by simp
    qed
  next
    case (Inr u)
    with Suc.prems g i have "r = Inr ()" "s' = s1"
      by (simp_all add: downloadFile_from.simps [of E url dest retries i])
    then show ?thesis
      using a Inr by (intro exI [of _ "Get url # evs"]) simp
  qed
qed

lemma files_in_put_file: "files_in (put_file (d @ p) c f) d = insert p (files_in f d)"
  by (auto simp add: files_in_def put_file_def)

lemma downloadFile_cases:
  assumes "downloadFile E r b fp dest retries s = (res, s')"
  shows "\<exists>evs. trace s' = trace s @ evs \<and> logged evs = [] \<and> removed evs = [] \<and>
         rms s' = rms s \<and> asked s' = asked s \<and> reqs s \<le> reqs s' \<and>
     (case res of Inl e \<Rightarrow> e = Error ''Retry limit reached.'' \<and> same_files_but dest (fs s) (fs s')
                            \<and> written evs = []
      | Inr u \<Rightarrow> written evs = [dest]
          \<and> (\<exists>body f1. same_files (fs s) f1 \<and> fs s' = f1(dest \<mapsto> File body)))"
  using downloadFile_from_cases [OF refl _ assms [unfolded downloadFile_def]]
  by simp

lemma download_loop_cases:
  "length files - i = n \<Longrightarrow> download_loop E it files i s = (r, s') \<Longrightarrow>
   \<exists>evs. trace s' = trace s @ evs \<and> logged evs = [] \<and> removed evs = [] \<and>
         rms s' = rms s \<and> asked s' = asked s \<and> reqs s \<le> reqs s' \<and>
     (case r of Inl e \<Rightarrow> e = Error ''Retry limit reached.''
      | Inr u \<Rightarrow> written evs = map (localPath E it) (drop i files) \<and>
          files_in (fs s') (targetFolder E it) =
            files_in (fs s) (targetFolder E it) \<union> set (map epath (drop i files)))"
proof (induction n arbitrary: i s)
  case 0
  then have "r = Inr ()" "s' = s" by (simp_all add: download_loop.simps [of E it files i])
  with 0 show ?case by simp
next
  case (Suc n)
  then have i: "i < length files" by simp
  let ?f = "files ! i"
  obtain x s1 where d: "downloadFile E (repo it) (branch_of it) (epath ?f) (localPath E it ?f) 3 s = (x, s1)"
    by (cases "downloadFile E (repo it) (branch_of it) (epath ?f) (localPath E it ?f) 3 s")
  from downloadFile_cases [OF d] obtain evs1 where
    e1: "trace s1 = trace s @ evs1" "logged evs1 = []" "removed evs1 = []"
        "rms s1 = rms s" "asked s1 = asked s" "reqs s \<le> reqs s1"
    and c1: "(case x of Inl e \<Rightarrow> e = Error ''Retry limit reached.''
                           \<and> same_files_but (localPath E it ?f) (fs s) (fs s1)
                           \<and> written evs1 = []
      | Inr u \<Rightarrow> written evs1 = [localPath E it ?f]
          \<and> (\<exists>body f1. same_files (fs s) f1 \<and> fs s1 = f1(localPath E it ?f \<mapsto> File body)))"
    by blast
  show ?case
  proof (cases x)
    case (Inl e)
    with Suc.prems d i have "r = Inl e" "s' = s1"
      by (simp_all add: download_loop.simps [of E it files i] Let_def)
    with e1 c1 Inl show ?thesis by simp
  next
    case (Inr u)
    let ?s2 = "emit (BarUpdate (i + 1)) s1"
    from Inr Suc.prems d i have rec: "download_loop E it files (Suc i) ?s2 = (r, s')"
      by (simp add: download_loop.simps [of E it files i] Let_def)
    have "length files - Suc i = n" using Suc.prems by simp
    from Suc.IH [OF this rec] obtain evs2 where
      e2: "trace s' = trace ?s2 @ evs2" "logged evs2 = []" "removed evs2 = []"
        "rms s' = rms ?s2" "asked s' = asked ?s2" "reqs ?s2 \<le> reqs s'"
      and c2: "(case r of Inl e \<Rightarrow> e = Error ''Retry limit reached.''
      | Inr u \<Rightarrow> written evs2 = map (localPath E it) (drop (Suc i) files) \<and>
          files_in (fs s') (targetFolder E it) =
            files_in (fs ?s2) (targetFolder E it) \<union> set (map epath (drop (Suc i) files)))"
      by blast
    from c1 Inr obtain body f1 where
      b: "same_files (fs s) f1" "fs s1 = f1(localPath E it ?f \<mapsto> File body)"
         "written evs1 = [localPath E it ?f]"
      by auto
    have dr: "drop i files = ?f # drop (Suc i) files"
      using i by (simp add: Cons_nth_drop_Suc)
    have fi: "files_in (fs s1) (targetFolder E it) = insert (epath ?f) (files_in (fs s) (targetFolder E it))"
      using b(2) files_in_same_files [OF b(1), of "dirname E @ folder it" "epath ?f" body]
      by (simp add: path_join_def)
    show ?thesis
      apply (rule exI [of _ "evs1 @ [BarUpdate (i + 1)] @ evs2"])
      using e1 e2 c2 b(3) fi dr by (cases r) auto
  qed
qed

lemma installDependencies_effect:
  "\<exists>evs. trace (installDependencies E d s) = trace s @ evs \<and> written evs = [] \<and> removed evs = []
     \<and> requests evs = [] \<and> MsgDownloaded x \<notin> set (logged evs)
     \<and> reqs (installDependencies E d s) = reqs s \<and> rms (installDependencies E d s) = rms s
     \<and> asked (installDependencies E d s) = asked s
     \<and> fs (installDependencies E d s) =
          (if fs s (path_join d [''package.json'']) = None then fs s else snd (npm E d (fs s)))"
  by (simp add: installDependencies_def Let_def fs_existsSync_def)

text \<open>What the \<^verbatim>\<open>try\<close> block with its \<^verbatim>\<open>catch\<close> comes to, by the answer to the tree request.\<close>

lemma materialize_listed:
  assumes "tree_api E (reqs s) (apiUrl (repo it) (branch_of it)) = Inr t"
  shows "materialize E it s =
     (case download_loop E it (blobs t) 0
             (emit (BarStart (length (blobs t)))
                (snd (axios_get_tree E (apiUrl (repo it) (branch_of it))
                   (console_log (MsgDownloading (name it)) s)))) of
        (Inl err, s2) \<Rightarrow> console_log (MsgErrorDownloading (name it) (message err)) s2
      | (Inr u, s2) \<Rightarrow>
          installDependencies E (targetFolder E it)
            (console_log (MsgDownloaded (folder it)) (emit BarStop s2)))"
  using assms
  by (simp add: materialize_def download_try_def fetchRepoFiles_result default_branch_def
        split: prod.splits sum.splits)

lemma materialize_cases:
  "\<exists>evs. trace (materialize E it s) = trace s @ evs \<and> removed evs = []
     \<and> rms (materialize E it s) = rms s \<and> asked (materialize E it s) = asked s
     \<and> (MsgDownloaded (folder it) \<in> set (logged evs) \<longrightarrow>
          (\<exists>t fmid. tree_api E (reqs s) (apiUrl (repo it) (branch_of it)) = Inr t
             \<and> written evs = map (localPath E it) (blobs t)
             \<and> files_in fmid (targetFolder E it) =
                 files_in (fs s) (targetFolder E it) \<union> set (map epath (blobs t))
             \<and> fs (materialize E it s) =
                 (if fmid (path_join (targetFolder E it) [''package.json'']) = None then fmid
                  else snd (npm E (targetFolder E it) fmid))))"
proof (cases "tree_api E (reqs s) (apiUrl (repo it) (branch_of it))")
  case (Inl e)
  show ?thesis
    apply (rule exI [of _ "[Log (MsgDownloading (name it)), Get (apiUrl (repo it) (branch_of it)),
             Log (MsgErrorDownloading (name it) (message e))]"])
    by (simp add: materialize_tree_failed [OF Inl])
next
  case (Inr t)
  let ?url = "apiUrl (repo it) (branch_of it)"
  let ?s3 = "emit (BarStart (length (blobs t)))
                (snd (axios_get_tree E ?url (console_log (MsgDownloading (name it)) s)))"
  obtain r s4 where l: "download_loop E it (blobs t) 0 ?s3 = (r, s4)"
    by (cases "download_loop E it (blobs t) 0 ?s3")
  from download_loop_cases [OF refl l] obtain evs2 where
    e2: "trace s4 = trace ?s3 @ evs2" "logged evs2 = []" "removed evs2 = []"
        "rms s4 = rms ?s3" "asked s4 = asked ?s3"
    and c2: "(case r of Inl e \<Rightarrow> e = Error ''Retry limit reached.''
      | Inr u \<Rightarrow> written evs2 = map (localPath E it) (drop 0 (blobs t)) \<and>
          files_in (fs s4) (targetFolder E it) =
            files_in (fs ?s3) (targetFolder E it) \<union> set (map epath (drop 0 (blobs t))))"
    by blast
  show ?thesis
  proof (cases r)
    case (Inl e)
    then have m: "materialize E it s = console_log (MsgErrorDownloading (name it) (message e)) s4"
      using materialize_listed [OF Inr] l by simp
    show ?thesis
      apply (rule exI [of _ "[Log (MsgDownloading (name it)), Get ?url, BarStart (length (blobs t))]
               @ evs2 @ [Log (MsgErrorDownloading (name it) (message e))]"])
      using e2 by (simp add: m)
  next
    case Inr2: (Inr u)
    let ?s5 = "console_log (MsgDownloaded (folder it)) (emit BarStop s4)"
    have m: "materialize E it s = installDependencies E (targetFolder E it) ?s5"
      using materialize_listed [OF Inr] l Inr2 by simp
    from installDependencies_effect [of E "targetFolder E it" ?s5 "folder it"] obtain evs3 where
      e3: "trace (installDependencies E (targetFolder E it) ?s5) = trace ?s5 @ evs3"
          "written evs3 = []" "removed evs3 = []"
          "rms (installDependencies E (targetFolder E it) ?s5) = rms ?s5"
          "asked (installDependencies E (targetFolder E it) ?s5) = asked ?s5"
          "fs (installDependencies E (targetFolder E it) ?s5) =
            (if fs ?s5 (path_join (targetFolder E it) [''package.json'']) = None then fs ?s5
             else snd (npm E (targetFolder E it) (fs ?s5)))"
      by blast
    from c2 Inr2 have w: "written evs2 = map (localPath E it) (blobs t)"
      and f: "files_in (fs s4) (targetFolder E it) =
                files_in (fs s) (targetFolder E it) \<union> set (map epath (blobs t))"
      by simp_all
    have main: "\<exists>t' fmid. tree_api E (reqs s) ?url = Inr t'
             \<and> written evs2 = map (localPath E it) (blobs t')
             \<and> files_in fmid (targetFolder E it) =
                 files_in (fs s) (targetFolder E it) \<union> set (map epath (blobs t'))
             \<and> fs (materialize E it s) =
                 (if fmid (path_join (targetFolder E it) [''package.json'']) = None then fmid
                  else snd (npm E (targetFolder E it) fmid))"
      apply (rule exI [of _ t])
      apply (rule exI [of _ "fs s4"])
      using Inr w f e3(6) by (simp add: m)
    show ?thesis
      apply (rule exI [of _ "[Log (MsgDownloading (name it)), Get ?url, BarStart (length (blobs t))]
               @ evs2 @ [BarStop, Log (MsgDownloaded (folder it))] @ evs3"])
      using e2 e3(1-5) main by (simp add: m)
  qed
qed

text \<open>
  The folder while the download fills it: a listed path that clashes with none of those
  written so far can be written, and the folder is then filled by one path more.
\<close>

lemma prefix_butlast_strict:
  assumes "p \<noteq> []" and "prefix q (butlast p)"
  shows "strict_prefix q p"
proof -
  have "prefix q p" using assms(2) prefixeq_butlast [of p] by (rule prefix_order.trans)
  moreover have "q \<noteq> p" using assms not_prefix_butlast [of p] by auto
  ultimately show ?thesis by (simp add: strict_prefix_def)
qed

lemma filled_writable:
  assumes "filled d W f" and "d @ b \<noteq> []"
    and "\<forall>w\<in>W. \<not> strict_prefix w b \<and> \<not> strict_prefix b w"
  shows "writable f (d @ b)"
proof -
  have chain: "\<not> is_file (f q)" if q: "prefix q (path_dirname (d @ b))" for q
  proof -
    from q assms(2) have sp: "strict_prefix q (d @ b)"
      by (simp add: path_dirname_def prefix_butlast_strict)
    then have "prefix q (d @ b)" by (simp add: strict_prefix_def)
    then consider "prefix q d" "q \<noteq> d" | r where "q = d @ r"
      by (auto simp add: prefix_append)
    then show ?thesis
    proof cases
      case 1
      then have "strict_prefix q d" by (simp add: strict_prefix_def)
      with assms(1) show ?thesis by (simp add: filled_def)
    next
      case 2
      with sp have "strict_prefix r b" by (simp add: strict_prefix_def)
      with assms(3) have "r \<notin> W" by blast
      with assms(1) 2 show ?thesis by (auto simp add: filled_def)
    qed
  qed
  have "f (d @ b) \<noteq> Some Dir"
  proof
    assume "f (d @ b) = Some Dir"
    with assms(1) obtain w where "w \<in> W" "strict_prefix b w" by (auto simp add: filled_def)
    with assms(3) show False by blast
  qed
  with chain assms(2) show ?thesis by (simp add: writable_def no_file_on_chain)
qed

lemma filled_put_file:
  assumes "filled d W f" and "d @ b \<noteq> []"
  shows "filled d (insert b W) (put_file (d @ b) c f)"
proof -
  have up: "prefix q (path_dirname (d @ b)) \<Longrightarrow> strict_prefix q (d @ b)" for q
    using assms(2) by (simp add: path_dirname_def prefix_butlast_strict)
  have 1: "r \<in> insert b W" if "is_file (put_file (d @ b) c f (d @ r))" for r
    using that assms(1) by (auto simp add: put_file_def filled_def is_file_def split: if_splits)
  have 2: "\<exists>w\<in>insert b W. strict_prefix r w" if "put_file (d @ b) c f (d @ r) = Some Dir" for r
  proof (cases "prefix (d @ r) (path_dirname (d @ b)) \<and> f (d @ r) = None")
    case True
    then have "strict_prefix (d @ r) (d @ b)" using up by blast
    then have "strict_prefix r b" by (simp add: strict_prefix_def)
    then show ?thesis by blast
  next
    case False
    with that have "f (d @ r) = Some Dir" by (auto simp add: put_file_def split: if_splits)
    with assms(1) show ?thesis by (auto simp add: filled_def)
  qed
  have 3: "\<not> is_file (put_file (d @ b) c f q)" if "strict_prefix q d" for q
  proof -
    have "q \<noteq> d @ b" using that by (auto simp add: strict_prefix_def)
    moreover have "\<not> is_file (f q)" using that assms(1) by (simp add: filled_def)
    ultimately show ?thesis by (simp add: put_file_def is_file_def)
  qed
  show ?thesis unfolding filled_def using 1 2 3 by blast
qed

text \<open>
  With every content request answered, a willing disk, a folder whose ancestors are no
  files and a listing in which no path lies below another, no file fails and the loop
  runs to its end.
\<close>

lemma download_loop_completes:
  assumes "\<forall>n u. \<not> isl (raw_api E n u)" and "\<forall>n p. disk_api E n p = None"
    and "targetFolder E it \<noteq> []"
    and "\<forall>f\<in>set files. \<forall>g\<in>set files. \<not> strict_prefix (epath f) (epath g)"
  shows "length files - i = n \<Longrightarrow> filled (targetFolder E it) (epath ` set (take i files)) (fs s) \<Longrightarrow>
         fst (download_loop E it files i s) = Inr ()"
proof (induction n arbitrary: i s)
  case 0
  then show ?case by (simp add: download_loop.simps [of E it files i])
next
  case (Suc n)
  then have i: "i < length files" by simp
  let ?T = "targetFolder E it"
  let ?f = "files ! i"
  let ?url = "rawUrl (repo it) (branch_of it) (epath ?f)"
  from assms(1) have "\<not> isl (raw_api E (reqs s) ?url)" by blast
  then obtain body where b: "raw_api E (reqs s) ?url = Inr body"
    by (cases "raw_api E (reqs s) ?url") simp_all
  have ne: "?T @ epath ?f \<noteq> []" using assms(3) by simp
  have "\<forall>w\<in>epath ` set (take i files). \<not> strict_prefix w (epath ?f) \<and> \<not> strict_prefix (epath ?f) w"
    using assms(4) i by (auto dest!: in_set_takeD)
  from filled_writable [OF Suc.prems(2) ne this]
  have w: "writable (fs s) (localPath E it ?f)" by (simp add: path_join_def)
  from downloadFile_from_success [OF b _ w assms(2), of 0 3] obtain s1 where
    d: "downloadFile E (repo it) (branch_of it) (epath ?f) (localPath E it ?f) 3 s = (Inr (), s1)"
    and f1: "fs s1 = put_file (localPath E it ?f) body (fs s)"
    by (auto simp add: downloadFile_def)
  have tk: "take (Suc i) files = take i files @ [?f]"
    using i by (simp add: take_Suc_conv_app_nth)
  have "filled ?T (insert (epath ?f) (epath ` set (take i files))) (fs s1)"
    using filled_put_file [OF Suc.prems(2) ne, of body] f1 by (simp add: path_join_def)
  then have inv: "filled ?T (epath ` set (take (Suc i) files)) (fs (emit (BarUpdate (i + 1)) s1))"
    by (simp add: tk)
  have "length files - Suc i = n" using Suc.prems(1) by simp
  from Suc.IH [OF this inv] show ?case
    using i d by (simp add: download_loop.simps [of E it files i] Let_def)
qed

lemma materialize_reachable:
  assumes "tree_api E (reqs s) (apiUrl (repo it) (branch_of it)) = Inr t"
    and "\<forall>n u. \<not> isl (raw_api E n u)" and "\<forall>n p. disk_api E n p = None"
    and "targetFolder E it \<noteq> []"
    and "\<forall>f\<in>set (blobs t). \<forall>g\<in>set (blobs t). \<not> strict_prefix (epath f) (epath g)"
    and "filled (targetFolder E it) {} (fs s)"
  shows "MsgDownloaded (folder it) \<in> set (logged (emitted s (materialize E it s)))"
proof -
  let ?url = "apiUrl (repo it) (branch_of it)"
  let ?s3 = "emit (BarStart (length (blobs t)))
                (snd (axios_get_tree E ?url (console_log (MsgDownloading (name it)) s)))"
  obtain r s4 where l: "download_loop E it (blobs t) 0 ?s3 = (r, s4)"
    by (cases "download_loop E it (blobs t) 0 ?s3")
  have "filled (targetFolder E it) (epath ` set (take 0 (blobs t))) (fs ?s3)"
    using assms(6) by simp
  from download_loop_completes [OF assms(2,3,4,5) refl this] l
  have r: "r = Inr ()" by simp
  from download_loop_cases [OF refl l] obtain evs2 where e2: "trace s4 = trace ?s3 @ evs2"
    by blast
  let ?s5 = "console_log (MsgDownloaded (folder it)) (emit BarStop s4)"
  have m: "materialize E it s = installDependencies E (targetFolder E it) ?s5"
    using materialize_listed [OF assms(1)] l r by simp
  from installDependencies_effect [of E "targetFolder E it" ?s5 "folder it"] obtain evs3 where
    e3: "trace (installDependencies E (targetFolder E it) ?s5) = trace ?s5 @ evs3"
    by blast
  show ?thesis by (simp add: m e3 e2 emitted_def)
qed

lemma handleDownload_absent:
  assumes "\<not> fs_existsSync (targetFolder E it) s"
  shows "handleDownload E it s = (Inr (), materialize E it s)"
  using assms by (simp add: handleDownload_def Let_def)

lemma handleDownload_overwrite:
  assumes "fs_existsSync (targetFolder E it) s" and "answers E (asked s)"
    and "rm_api E (rms s) (targetFolder E it) = Removed"
  shows "handleDownload E it s =
     (Inr (), materialize E it
        (snd (fs_remove E (targetFolder E it) (snd (prompts_confirm E (AskOverwrite (name it)) s)))))"
  using assms
  by (simp add: handleDownload_def Let_def prompts_confirm_def fs_remove_def)

lemma files_in_clean:
  "\<forall>q. prefix d q \<longrightarrow> f q = None \<Longrightarrow> files_in f d = {}"
  by (simp add: files_in_def)

text \<open>The state in which the download proper begins, when it does begin.\<close>

lemma handleDownload_starts:
  assumes "(\<forall>q. prefix (targetFolder E it) q \<longrightarrow> fs s q = None)
           \<or> (fs_existsSync (targetFolder E it) s \<and> answers E (asked s)
               \<and> rm_api E (rms s) (targetFolder E it) = Removed)"
  shows "\<exists>s2 pre. handleDownload E it s = (Inr (), materialize E it s2)
           \<and> trace s2 = trace s @ pre \<and> written pre = [] \<and> logged pre = []
           \<and> reqs s2 = reqs s
           \<and> (\<forall>q. prefix (targetFolder E it) q \<longrightarrow> fs s2 q = None)
           \<and> (\<forall>q. strict_prefix q (targetFolder E it) \<longrightarrow> fs s2 q = fs s q)"
proof (cases "fs_existsSync (targetFolder E it) s")
  case False
  with assms have clean: "\<forall>q. prefix (targetFolder E it) q \<longrightarrow> fs s q = None"
    by (auto simp add: fs_existsSync_def)
  show ?thesis
    apply (rule exI [of _ s])
    apply (rule exI [of _ "[]"])
    using handleDownload_absent [OF False] clean by simp
next
  case True
  then have "\<not> (\<forall>q. prefix (targetFolder E it) q \<longrightarrow> fs s q = None)"
    by (auto simp add: fs_existsSync_def)
  with assms have y: "answers E (asked s)" and r: "rm_api E (rms s) (targetFolder E it) = Removed"
    by simp_all
  let ?s1 = "snd (prompts_confirm E (AskOverwrite (name it)) s)"
  have r1: "rm_api E (rms ?s1) (targetFolder E it) = Removed" using r by simp
  have keep: "fs (snd (fs_remove E (targetFolder E it) ?s1)) q = fs s q"
    if "strict_prefix q (targetFolder E it)" for q
  proof -
    from that have "\<not> prefix (targetFolder E it) q" by (auto simp add: strict_prefix_def)
    then show ?thesis using r1 by (simp add: fs_remove_def Let_def)
  qed
  show ?thesis
    apply (rule exI [of _ "snd (fs_remove E (targetFolder E it) ?s1)"])
    apply (rule exI [of _ "[Prompt (AskOverwrite (name it)), Remove (targetFolder E it)]"])
    using handleDownload_overwrite [OF True y r] fs_remove_clean [OF r1] keep by simp
qed

section \<open>Materialization\<close>

text \<open>
  C1, as the code has it. \<^verbatim>\<open>handleDownload\<close> gets past the overwrite check (nothing is at
  or below the folder, or the user agrees and the old folder is removed) and the tree
  request, the first request it sends, is answered with the listing \<open>t\<close>.
  \<^item> The download runs to its end (the line \<^verbatim>\<open>Downloaded to <folder>\<close> is printed) when
    every content request is answered and every local write goes through: the disk is
    willing, the folder has a name, no ancestor of the folder is a file, and no blob path
    of the listing lies below another one.
  \<^item> Whenever it runs to its end, the files it has written are, in listing order, exactly
    one per \<^verbatim>\<open>blob\<close> entry of \<open>t\<close>, each at \<^verbatim>\<open><folder>/<path>\<close> below \<^verbatim>\<open>__dirname\<close>, and none for
    an entry of another type; and at the end of the download loop (in the file system
    \<open>fmid\<close>) the files below the folder are exactly these. What follows is at most
    \<^verbatim>\<open>npm install\<close>, run in the folder when it holds a \<^verbatim>\<open>package.json\<close>.
\<close>

theorem materialization_writes_each_blob_once:
  assumes "(\<forall>q. prefix (targetFolder E it) q \<longrightarrow> fs s q = None)
           \<or> (fs_existsSync (targetFolder E it) s \<and> answers E (asked s)
               \<and> rm_api E (rms s) (targetFolder E it) = Removed)"
    and "tree_api E (reqs s) (apiUrl (repo it) (branch_of it)) = Inr t"
  shows "((\<forall>n u. \<not> isl (raw_api E n u)) \<and> (\<forall>n p. disk_api E n p = None)
            \<and> targetFolder E it \<noteq> []
            \<and> (\<forall>q. strict_prefix q (targetFolder E it) \<longrightarrow> \<not> is_file (fs s q))
            \<and> (\<forall>f\<in>set (blobs t). \<forall>g\<in>set (blobs t). \<not> strict_prefix (epath f) (epath g)) \<longrightarrow>
            MsgDownloaded (folder it) \<in> set (logged (emitted s (snd (handleDownload E it s)))))
       \<and> (MsgDownloaded (folder it) \<in> set (logged (emitted s (snd (handleDownload E it s)))) \<longrightarrow>
            written (emitted s (snd (handleDownload E it s))) =
              map (\<lambda>f. path_join (targetFolder E it) (epath f)) (filter (\<lambda>f. etype f = ''blob'') t)
            \<and> (\<exists>fmid. files_in fmid (targetFolder E it) =
                         set (map epath (filter (\<lambda>f. etype f = ''blob'') t))
                 \<and> fs (snd (handleDownload E it s)) =
                     (if fmid (path_join (targetFolder E it) [''package.json'']) = None then fmid
                      else snd (npm E (targetFolder E it) fmid))))"
proof -
  from handleDownload_starts [OF assms(1)] obtain s2 pre where
    h: "handleDownload E it s = (Inr (), materialize E it s2)"
       "trace s2 = trace s @ pre" "written pre = []" "logged pre = []" "reqs s2 = reqs s"
       "\<forall>q. prefix (targetFolder E it) q \<longrightarrow> fs s2 q = None"
       "\<forall>q. strict_prefix q (targetFolder E it) \<longrightarrow> fs s2 q = fs s q"
    by blast
  have t2: "tree_api E (reqs s2) (apiUrl (repo it) (branch_of it)) = Inr t"
    using assms(2) h(5) by simp
  from materialize_cases [of E it s2] obtain evs where
    e: "trace (materialize E it s2) = trace s2 @ evs"
    and c: "MsgDownloaded (folder it) \<in> set (logged evs) \<longrightarrow>
          (\<exists>t' fmid. tree_api E (reqs s2) (apiUrl (repo it) (branch_of it)) = Inr t'
             \<and> written evs = map (localPath E it) (blobs t')
             \<and> files_in fmid (targetFolder E it) =
                 files_in (fs s2) (targetFolder E it) \<union> set (map epath (blobs t'))
             \<and> fs (materialize E it s2) =
                 (if fmid (path_join (targetFolder E it) [''package.json'']) = None then fmid
                  else snd (npm E (targetFolder E it) fmid)))"
    by blast
  have em: "emitted s (snd (handleDownload E it s)) = pre @ evs"
    and em2: "emitted s2 (materialize E it s2) = evs"
    using h e by (simp_all add: emitted_def)
  show ?thesis
  proof (intro conjI impI)
    assume a: "(\<forall>n u. \<not> isl (raw_api E n u)) \<and> (\<forall>n p. disk_api E n p = None)
            \<and> targetFolder E it \<noteq> []
            \<and> (\<forall>q. strict_prefix q (targetFolder E it) \<longrightarrow> \<not> is_file (fs s q))
            \<and> (\<forall>f\<in>set (blobs t). \<forall>g\<in>set (blobs t). \<not> strict_prefix (epath f) (epath g))"
    have "filled (targetFolder E it) {} (fs s2)"
      using a h(6,7) by (simp add: filled_def is_file_def)
    with a materialize_reachable [OF t2]
    have "MsgDownloaded (folder it) \<in> set (logged (emitted s2 (materialize E it s2)))"
      by blast
    then show "MsgDownloaded (folder it) \<in> set (logged (emitted s (snd (handleDownload E it s))))"
      by (simp add: em em2)
  next
    assume "MsgDownloaded (folder it) \<in> set (logged (emitted s (snd (handleDownload E it s))))"
    then have "MsgDownloaded (folder it) \<in> set (logged evs)" using h(4) by (simp add: em)
    with c t2 obtain fmid where
      w: "written evs = map (localPath E it) (blobs t)"
      and f: "files_in fmid (targetFolder E it) =
                 files_in (fs s2) (targetFolder E it) \<union> set (map epath (blobs t))"
             "fs (materialize E it s2) =
                 (if fmid (path_join (targetFolder E it) [''package.json'']) = None then fmid
                  else snd (npm E (targetFolder E it) fmid))"
      by auto
    show "written (emitted s (snd (handleDownload E it s))) =
              map (\<lambda>f. path_join (targetFolder E it) (epath f)) (filter (\<lambda>f. etype f = ''blob'') t)"
      using w h(3) by (simp add: em blobs_def)
    show "\<exists>fmid. files_in fmid (targetFolder E it) =
                         set (map epath (filter (\<lambda>f. etype f = ''blob'') t))
                 \<and> fs (snd (handleDownload E it s)) =
                     (if fmid (path_join (targetFolder E it) [''package.json'']) = None then fmid
                      else snd (npm E (targetFolder E it) fmid))"
      apply (rule exI [of _ fmid])
      using f files_in_clean [OF h(6)] h(1) by (simp add: blobs_def)
  qed
qed

theorem materialization_writes_each_blob_once_witness:
  "MsgDownloaded [''demo''] \<in> set (logged (emitted fresh_state (snd (handleDownload demo_env demo_item fresh_state))))
   \<and> written (emitted fresh_state (snd (handleDownload demo_env demo_item fresh_state)))
        = [[''app'', ''demo'', ''index.js''], [''app'', ''demo'', ''src'', ''a.js'']]
   \<and> files_in (fs (snd (handleDownload demo_env demo_item fresh_state))) [''app'', ''demo'']
        = {[''index.js''], [''src'', ''a.js'']}
   \<and> MsgDownloaded [''demo''] \<in> set (logged (emitted installed_state (snd (handleDownload demo_env demo_item installed_state))))
   \<and> written (emitted installed_state (snd (handleDownload demo_env demo_item installed_state)))
        = [[''app'', ''demo'', ''index.js''], [''app'', ''demo'', ''src'', ''a.js'']]
   \<and> files_in (fs (snd (handleDownload demo_env demo_item installed_state))) [''app'', ''demo'']
        = {[''index.js''], [''src'', ''a.js'']}"
proof -
  have a1: "(\<forall>q. prefix (targetFolder demo_env demo_item) q \<longrightarrow> fs fresh_state q = None)
           \<or> (fs_existsSync (targetFolder demo_env demo_item) fresh_state
               \<and> answers demo_env (asked fresh_state)
               \<and> rm_api demo_env (rms fresh_state) (targetFolder demo_env demo_item) = Removed)"
    by (simp add: fresh_state_def)
  have a2: "(\<forall>q. prefix (targetFolder demo_env demo_item) q \<longrightarrow> fs installed_state q = None)
           \<or> (fs_existsSync (targetFolder demo_env demo_item) installed_state
               \<and> answers demo_env (asked installed_state)
               \<and> rm_api demo_env (rms installed_state) (targetFolder demo_env demo_item) = Removed)"
  proof -
    have "answers demo_env 0" "rm_api demo_env 0 [''app'', ''demo''] = Removed"
      by (simp_all add: demo_env_def)
    then show ?thesis by simp
  qed
  have t: "tree_api demo_env (reqs s) (apiUrl (repo demo_item) (branch_of demo_item)) = Inr demo_tree" for s
    by (simp add: demo_env_def)
  have cl: "\<forall>f\<in>set (blobs demo_tree). \<forall>g\<in>set (blobs demo_tree). \<not> strict_prefix (epath f) (epath g)"
    by (simp add: blobs_def demo_tree_def)
  have api: "\<forall>n u. \<not> isl (raw_api demo_env n u)" "\<forall>n p. disk_api demo_env n p = None"
    by (simp_all add: demo_env_def)
  have ne: "targetFolder demo_env demo_item \<noteq> []" by simp
  have anc: "\<forall>q. strict_prefix q (targetFolder demo_env demo_item) \<longrightarrow> \<not> is_file (fs s q)"
    if "fs s [] = None" "fs s [''app''] = None" for s
  proof (intro allI impI)
    fix q assume "strict_prefix q (targetFolder demo_env demo_item)"
    then have "q \<in> set (prefixes [''app'', ''demo''])" "q \<noteq> [''app'', ''demo'']"
      by (simp_all add: strict_prefix_def del: prefixes.simps)
    then have "q = [] \<or> q = [''app'']" by auto
    then show "\<not> is_file (fs s q)" using that by (auto simp add: is_file_def)
  qed
  have anc1: "\<forall>q. strict_prefix q (targetFolder demo_env demo_item) \<longrightarrow> \<not> is_file (fs fresh_state q)"
    by (rule anc) (simp_all add: fresh_state_def)
  have anc2: "\<forall>q. strict_prefix q (targetFolder demo_env demo_item) \<longrightarrow> \<not> is_file (fs installed_state q)"
    by (rule anc) (simp_all add: installed_state_def)
  have r1: "(\<forall>n u. \<not> isl (raw_api demo_env n u)) \<and> (\<forall>n p. disk_api demo_env n p = None)
            \<and> targetFolder demo_env demo_item \<noteq> []
            \<and> (\<forall>q. strict_prefix q (targetFolder demo_env demo_item) \<longrightarrow> \<not> is_file (fs fresh_state q))
            \<and> (\<forall>f\<in>set (blobs demo_tree). \<forall>g\<in>set (blobs demo_tree). \<not> strict_prefix (epath f) (epath g))"
    using api ne anc1 cl by blast
  have r2: "(\<forall>n u. \<not> isl (raw_api demo_env n u)) \<and> (\<forall>n p. disk_api demo_env n p = None)
            \<and> targetFolder demo_env demo_item \<noteq> []
            \<and> (\<forall>q. strict_prefix q (targetFolder demo_env demo_item) \<longrightarrow> \<not> is_file (fs installed_state q))
            \<and> (\<forall>f\<in>set (blobs demo_tree). \<forall>g\<in>set (blobs demo_tree). \<not> strict_prefix (epath f) (epath g))"
    using api ne anc2 cl by blast
  note t1 = materialization_writes_each_blob_once [OF a1 t]
  note t2 = materialization_writes_each_blob_once [OF a2 t]
  have d: "folder demo_item = [''demo'']" by (simp add: demo_item_def)
  have b: "map (\<lambda>f. path_join (targetFolder demo_env demo_item) (epath f))
             (filter (\<lambda>f. etype f = ''blob'') demo_tree)
           = [[''app'', ''demo'', ''index.js''], [''app'', ''demo'', ''src'', ''a.js'']]"
    by (simp add: demo_tree_def path_join_def demo_env_def demo_item_def)
  have bs: "set (map epath (filter (\<lambda>f. etype f = ''blob'') demo_tree)) = {[''index.js''], [''src'', ''a.js'']}"
    by (simp add: demo_tree_def)
  have n: "snd (npm demo_env dd f) = f" for dd f by (simp add: demo_env_def)
  from t1 r1 have c1: "MsgDownloaded (folder demo_item) \<in>
       set (logged (emitted fresh_state (snd (handleDownload demo_env demo_item fresh_state))))"
    by blast
  from t2 r2 have c2: "MsgDownloaded (folder demo_item) \<in>
       set (logged (emitted installed_state (snd (handleDownload demo_env demo_item installed_state))))"
    by blast
  from t1 c1 have w1: "written (emitted fresh_state (snd (handleDownload demo_env demo_item fresh_state)))
     = map (\<lambda>f. path_join (targetFolder demo_env demo_item) (epath f))
             (filter (\<lambda>f. etype f = ''blob'') demo_tree)"
    by blast
  from t2 c2 have w2: "written (emitted installed_state (snd (handleDownload demo_env demo_item installed_state)))
     = map (\<lambda>f. path_join (targetFolder demo_env demo_item) (epath f))
             (filter (\<lambda>f. etype f = ''blob'') demo_tree)"
    by blast
  from t1 c1 obtain fmid1 where
    m1: "files_in fmid1 (targetFolder demo_env demo_item) =
           set (map epath (filter (\<lambda>f. etype f = ''blob'') demo_tree))"
        "fs (snd (handleDownload demo_env demo_item fresh_state)) =
           (if fmid1 (path_join (targetFolder demo_env demo_item) [''package.json'']) = None then fmid1
            else snd (npm demo_env (targetFolder demo_env demo_item) fmid1))"
    by blast
  from t2 c2 obtain fmid2 where
    m2: "files_in fmid2 (targetFolder demo_env demo_item) =
           set (map epath (filter (\<lambda>f. etype f = ''blob'') demo_tree))"
        "fs (snd (handleDownload demo_env demo_item installed_state)) =
           (if fmid2 (path_join (targetFolder demo_env demo_item) [''package.json'']) = None then fmid2
            else snd (npm demo_env (targetFolder demo_env demo_item) fmid2))"
    by blast
  have f1: "files_in (fs (snd (handleDownload demo_env demo_item fresh_state))) [''app'', ''demo'']
        = {[''index.js''], [''src'', ''a.js'']}"
    using m1 bs by (simp add: n)
  have f2: "files_in (fs (snd (handleDownload demo_env demo_item installed_state))) [''app'', ''demo'']
        = {[''index.js''], [''src'', ''a.js'']}"
    using m2 bs by (simp add: n)
  show ?thesis
    using c1 [unfolded d] c2 [unfolded d] w1 [unfolded b] w2 [unfolded b] f1 f2 by blast
qed

text \<open>
  C1 as stated fails for a listing with the blobs \<^verbatim>\<open>a\<close> and \<^verbatim>\<open>a/b\<close>: the tree request and
  the content requests are answered, \<^verbatim>\<open>a\<close> is written as a file, \<^verbatim>\<open>ensureDir\<close> for \<^verbatim>\<open>a/b\<close>
  then throws at each of the four attempts, and the download ends with
  \<^verbatim>\<open>Retry limit reached.\<close>, one file written for two blobs.
\<close>

theorem materialization_clashing_blobs_counterexample:
  "tree_api clash_env (reqs fresh_state) (apiUrl (repo demo_item) (branch_of demo_item)) = Inr clash_tree
   \<and> map epath (blobs clash_tree) = [[''a''], [''a'', ''b'']]
   \<and> requests (emitted fresh_state (snd (handleDownload clash_env demo_item fresh_state)))
        = [apiUrl ''org/demo'' ''main'', rawUrl ''org/demo'' ''main'' [''a''],
           rawUrl ''org/demo'' ''main'' [''a'', ''b''], rawUrl ''org/demo'' ''main'' [''a'', ''b''],
           rawUrl ''org/demo'' ''main'' [''a'', ''b''], rawUrl ''org/demo'' ''main'' [''a'', ''b'']]
   \<and> written (emitted fresh_state (snd (handleDownload clash_env demo_item fresh_state)))
        = [[''app'', ''demo'', ''a'']]
   \<and> logged (emitted fresh_state (snd (handleDownload clash_env demo_item fresh_state)))
        = [MsgDownloading ''Demo'', MsgErrorDownloading ''Demo'' ''Retry limit reached.'']
   \<and> fs (snd (handleDownload clash_env demo_item fresh_state)) [''app'', ''demo'', ''a'', ''b''] = None"
  by (simp add: run_defs blobs_def clash_env_def clash_tree_def)

section \<open>A failed file\<close>








section \<open>Update\<close>

text \<open>However the deletions go, \<^verbatim>\<open>removeWithRetries\<close> ends with the folder gone or the folder kept.\<close>

lemma removeWithRetries_from_cases:
  "retries - i = n \<Longrightarrow> removeWithRetries_from E p retries d i s = (r, s') \<Longrightarrow>
   \<exists>evs. trace s' = trace s @ evs \<and> logged evs = [] \<and> reqs s' = reqs s \<and>
     (case r of Inl e \<Rightarrow> fs s' p = fs s p
      | Inr u \<Rightarrow> i < retries \<longrightarrow> (\<forall>q. prefix p q \<longrightarrow> fs s' q = None))"
proof (induction n arbitrary: i s)
  case 0
  then have "r = Inr ()" "s' = s" by (simp_all add: removeWithRetries_from.simps [of E p retries d i])
  with 0 show ?case by simp
next
  case (Suc n)
  then have i: "i < retries" by simp
  show ?case
  proof (cases "rm_api E (rms s) p")
    case Removed
    then have "removeWithRetries_from E p retries d i s = (Inr (), snd (fs_remove E p s))"
      using i by (rule removeWithRetries_from_success)
    with Suc.prems have "r = Inr ()" "s' = snd (fs_remove E p s)" by simp_all
    then show ?thesis
      using fs_remove_clean [OF Removed] by (intro exI [of _ "[Remove p]"]) simp
  next
    case (RemoveFailed e lost)
    obtain x s1 where g: "fs_remove E p s = (x, s1)" by (cases "fs_remove E p s")
    have x: "x = Inl e" and keep: "fs s1 p = fs s p"
      and s1: "trace s1 = trace s @ [Remove p]" "reqs s1 = reqs s"
      using fs_remove_failed [OF RemoveFailed] fs_remove_simps(1,2) [of E p s] g by simp_all
    show ?thesis
    proof (cases "i = retries - 1")
      case True
      then have "Suc i = retries" using i by simp
      from removeWithRetries_from_last_failure [OF RemoveFailed this] Suc.prems(2) g
      have "r = Inl e" "s' = s1" by simp_all
      then show ?thesis using keep s1 by (intro exI [of _ "[Remove p]"]) simp
    next
      case False
      then have rec: "removeWithRetries_from E p retries d (Suc i) (sleep d s1) = (r, s')"
        using Suc.prems(2) i g x by (simp add: removeWithRetries_from.simps [of E p retries d i])
      have "retries - Suc i = n" "Suc i < retries" using Suc.prems(1) False i by simp_all
      from Suc.IH [OF this(1) rec] obtain evs where
        e: "trace s' = trace (sleep d s1) @ evs" "logged evs = []" "reqs s' = reqs (sleep d s1)"
           "(case r of Inl e \<Rightarrow> fs s' p = fs (sleep d s1) p
             | Inr u \<Rightarrow> Suc i < retries \<longrightarrow> (\<forall>q. prefix p q \<longrightarrow> fs s' q = None))"
        by blast
      show ?thesis
        apply (rule exI [of _ "[Remove p, Delay d] @ evs"])
        using e keep s1 \<open>Suc i < retries\<close> by (simp split: sum.splits)
    qed
  qed
qed

lemma handleUninstall_post:
  assumes "fs_existsSync (targetFolder E it) s"
  shows "fst (handleUninstall E it s) = Inr ()
       \<and> (\<exists>evs. trace (snd (handleUninstall E it s)) = trace s @ evs \<and> MsgDownloaded x \<notin> set (logged evs))
       \<and> reqs (snd (handleUninstall E it s)) = reqs s
       \<and> (fs_existsSync (targetFolder E it) (snd (handleUninstall E it s))
            \<or> (\<forall>q. prefix (targetFolder E it) q \<longrightarrow> fs (snd (handleUninstall E it s)) q = None))"
proof (cases "answers E (asked s)")
  case False
  have "handleUninstall E it s = (Inr (), snd (prompts_confirm E (AskUninstall (name it)) s))"
    using assms False by (simp add: handleUninstall_def Let_def prompts_confirm_def)
  then show ?thesis using assms by (simp add: fs_existsSync_def)
next
  case True
  let ?T = "targetFolder E it"
  let ?s1 = "snd (prompts_confirm E (AskUninstall (name it)) s)"
  obtain r s2 where rw: "removeWithRetries E ?T 5 500 ?s1 = (r, s2)"
    by (cases "removeWithRetries E ?T 5 500 ?s1")
  from removeWithRetries_from_cases [OF refl rw [unfolded removeWithRetries_def]] obtain evs where
    e: "trace s2 = trace ?s1 @ evs" "logged evs = []" "reqs s2 = reqs ?s1"
       "(case r of Inl e \<Rightarrow> fs s2 ?T = fs ?s1 ?T
         | Inr u \<Rightarrow> (0::nat) < 5 \<longrightarrow> (\<forall>q. prefix ?T q \<longrightarrow> fs s2 q = None))"
    by blast
  show ?thesis
  proof (cases r)
    case (Inl err)
    then have "handleUninstall E it s = (Inr (), console_log (MsgFailedUninstall (name it) (message err)) s2)"
      using handleUninstall_confirmed [OF assms True] rw by simp
    then show ?thesis using e Inl assms by (simp add: fs_existsSync_def)
  next
    case (Inr u)
    then have "handleUninstall E it s = (Inr (), console_log (MsgUninstalled (name it)) s2)"
      using handleUninstall_confirmed [OF assms True] rw by simp
    then show ?thesis using e Inr by simp
  qed
qed

lemma handleUninstall_cjs_post:
  assumes "fs_existsSync (targetFolder E it) s"
  shows "(\<exists>evs. trace (snd (handleUninstall_cjs E it s)) = trace s @ evs \<and> MsgDownloaded x \<notin> set (logged evs))
       \<and> reqs (snd (handleUninstall_cjs E it s)) = reqs s
       \<and> (fs_existsSync (targetFolder E it) (snd (handleUninstall_cjs E it s))
            \<or> (\<forall>q. prefix (targetFolder E it) q \<longrightarrow> fs (snd (handleUninstall_cjs E it s)) q = None))"
proof (cases "answers E (asked s)")
  case False
  have "handleUninstall_cjs E it s = (Inr (), snd (prompts_confirm E (AskUninstall (name it)) s))"
    using assms False by (simp add: handleUninstall_cjs_def Let_def prompts_confirm_def)
  then show ?thesis using assms by (simp add: fs_existsSync_def)
next
  case True
  let ?T = "targetFolder E it"
  let ?s1 = "snd (prompts_confirm E (AskUninstall (name it)) s)"
  let ?s2 = "snd (fs_remove E ?T ?s1)"
  show ?thesis
  proof (cases "rm_api E (rms ?s1) ?T")
    case Removed
    then have "fst (fs_remove E ?T ?s1) = Inr ()" by (simp add: fs_remove_ok)
    then have "handleUninstall_cjs E it s = (Inr (), console_log (MsgUninstalled (name it)) ?s2)"
      using handleUninstall_cjs_confirmed [OF assms True] by (simp split: prod.splits)
    then show ?thesis using fs_remove_clean [OF Removed] by simp
  next
    case (RemoveFailed e lost)
    from fs_remove_failed [OF this]
    have "handleUninstall_cjs E it s = (Inl e, ?s2)" and "fs ?s2 ?T = fs ?s1 ?T"
      using handleUninstall_cjs_confirmed [OF assms True] by (simp_all split: prod.splits)
    then show ?thesis using assms by (simp add: fs_existsSync_def)
  qed
qed


text \<open>
  A download that prints its \<^verbatim>\<open>Downloaded\<close> line has come past the overwrite check, and when
  the folder was there, it has been removed first.
\<close>

lemma handleDownload_completes:
  assumes "fs_existsSync (targetFolder E it) s \<or> (\<forall>q. prefix (targetFolder E it) q \<longrightarrow> fs s q = None)"
  shows "\<exists>evs. trace (snd (handleDownload E it s)) = trace s @ evs
          \<and> (MsgDownloaded (folder it) \<in> set (logged evs) \<longrightarrow>
               (\<exists>s2. handleDownload E it s = (Inr (), materialize E it s2) \<and> reqs s2 = reqs s
                  \<and> (\<forall>q. prefix (targetFolder E it) q \<longrightarrow> fs s2 q = None)
                  \<and> MsgDownloaded (folder it) \<in> set (logged (emitted s2 (materialize E it s2)))))"
proof (cases "fs_existsSync (targetFolder E it) s")
  case False
  with assms have clean: "\<forall>q. prefix (targetFolder E it) q \<longrightarrow> fs s q = None" by simp
  from materialize_cases [of E it s] obtain evs where
    e: "trace (materialize E it s) = trace s @ evs" by blast
  show ?thesis
    apply (rule exI [of _ evs])
    using handleDownload_absent [OF False] e clean
    by (auto simp add: emitted_def intro!: exI [of _ s])
next
  case True
  let ?T = "targetFolder E it"
  let ?s1 = "snd (prompts_confirm E (AskOverwrite (name it)) s)"
  show ?thesis
  proof (cases "answers E (asked s)")
    case False
    have "handleDownload E it s = (Inr (), ?s1)"
      using True False by (simp add: handleDownload_def Let_def prompts_confirm_def)
    then show ?thesis by (intro exI [of _ "[Prompt (AskOverwrite (name it))]"]) simp
  next
    case yes: True
    let ?s2 = "snd (fs_remove E ?T ?s1)"
    show ?thesis
    proof (cases "rm_api E (rms s) ?T")
      case Removed
      then have r1: "rm_api E (rms ?s1) ?T = Removed" by simp
      from materialize_cases [of E it ?s2] obtain evs where
        e: "trace (materialize E it ?s2) = trace ?s2 @ evs" by blast
      show ?thesis
        apply (rule exI [of _ "[Prompt (AskOverwrite (name it)), Remove ?T] @ evs"])
        using handleDownload_overwrite [OF True yes Removed] e fs_remove_clean [OF r1]
        by (auto simp add: emitted_def intro!: exI [of _ ?s2])
    next
      case (RemoveFailed e lost)
      let ?p = "emit (Prompt (AskOverwrite (name it))) (s\<lparr>asked := Suc (asked s)\<rparr>)"
      have f1: "rm_api E (rms ?p) ?T = RemoveFailed e lost" using RemoveFailed by simp
      obtain x s2 where g: "fs_remove E ?T ?p = (x, s2)" by (cases "fs_remove E ?T ?p")
      have x: "x = Inl e" and t2: "trace s2 = trace ?p @ [Remove ?T]"
        using fs_remove_failed [OF f1] fs_remove_simps(1) [of E ?T ?p] g by simp_all
      have pc: "prompts_confirm E (AskOverwrite (name it)) s = (True, ?p)"
        using yes by (simp add: prompts_confirm_def)
      have "handleDownload E it s = (Inl e, s2)"
        using True by (simp add: handleDownload_def Let_def pc g x)
      then show ?thesis
        using t2 by (intro exI [of _ "[Prompt (AskOverwrite (name it)), Remove ?T]"]) simp
    qed
  qed
qed

text \<open>The second half of an update, after an uninstall that has led from \<open>s\<close> to \<open>s1\<close>.\<close>

lemma update_tail:
  assumes "trace s1 = trace s @ evs0" and "MsgDownloaded (folder it) \<notin> set (logged evs0)"
    and "reqs s1 = reqs s"
    and "fs_existsSync (targetFolder E it) s1 \<or> (\<forall>q. prefix (targetFolder E it) q \<longrightarrow> fs s1 q = None)"
    and "MsgDownloaded (folder it) \<in> set (logged (emitted s (snd (handleDownload E it s1))))"
  shows "\<exists>t fmid. tree_api E (reqs s) (apiUrl (repo it) (branch_of it)) = Inr t
           \<and> files_in fmid (targetFolder E it) = set (map epath (blobs t))
           \<and> fs (snd (handleDownload E it s1)) =
               (if fmid (path_join (targetFolder E it) [''package.json'']) = None then fmid
                else snd (npm E (targetFolder E it) fmid))"
proof -
  from handleDownload_completes [OF assms(4)] obtain evs where
    e: "trace (snd (handleDownload E it s1)) = trace s1 @ evs"
    and c: "MsgDownloaded (folder it) \<in> set (logged evs) \<longrightarrow>
               (\<exists>s2. handleDownload E it s1 = (Inr (), materialize E it s2) \<and> reqs s2 = reqs s1
                  \<and> (\<forall>q. prefix (targetFolder E it) q \<longrightarrow> fs s2 q = None)
                  \<and> MsgDownloaded (folder it) \<in> set (logged (emitted s2 (materialize E it s2))))"
    by blast
  have "emitted s (snd (handleDownload E it s1)) = evs0 @ evs"
    using e assms(1) by (simp add: emitted_def)
  with assms(2,5) have "MsgDownloaded (folder it) \<in> set (logged evs)" by simp
  with c obtain s2 where
    s2: "handleDownload E it s1 = (Inr (), materialize E it s2)" "reqs s2 = reqs s1"
        "\<forall>q. prefix (targetFolder E it) q \<longrightarrow> fs s2 q = None"
        "MsgDownloaded (folder it) \<in> set (logged (emitted s2 (materialize E it s2)))"
    by blast
  from materialize_cases [of E it s2] obtain evs2 where
    m: "trace (materialize E it s2) = trace s2 @ evs2"
       "MsgDownloaded (folder it) \<in> set (logged evs2) \<longrightarrow>
          (\<exists>t fmid. tree_api E (reqs s2) (apiUrl (repo it) (branch_of it)) = Inr t
             \<and> written evs2 = map (localPath E it) (blobs t)
             \<and> files_in fmid (targetFolder E it) =
                 files_in (fs s2) (targetFolder E it) \<union> set (map epath (blobs t))
             \<and> fs (materialize E it s2) =
                 (if fmid (path_join (targetFolder E it) [''package.json'']) = None then fmid
                  else snd (npm E (targetFolder E it) fmid)))"
    by blast
  have "emitted s2 (materialize E it s2) = evs2" using m(1) by (simp add: emitted_def)
  with s2(4) m(2) obtain t fmid where
    t: "tree_api E (reqs s2) (apiUrl (repo it) (branch_of it)) = Inr t"
       "files_in fmid (targetFolder E it) =
          files_in (fs s2) (targetFolder E it) \<union> set (map epath (blobs t))"
       "fs (materialize E it s2) =
                 (if fmid (path_join (targetFolder E it) [''package.json'']) = None then fmid
                  else snd (npm E (targetFolder E it) fmid))"
    by auto
  show ?thesis
    apply (rule exI [of _ t])
    apply (rule exI [of _ fmid])
    using t s2(1,2) assms(3) files_in_clean [OF s2(3)] by simp
qed

text \<open>
  C3, as the code has it. \<^verbatim>\<open>handleUpdate\<close> runs \<^verbatim>\<open>handleUninstall\<close> and then
  \<^verbatim>\<open>handleDownload\<close>; in \<^verbatim>\<open>part_000\<close> the first never throws, so the second always runs, in
  \<^verbatim>\<open>index.cjs\<close> a failed delete is thrown and ends the update. For an installed entry, when
  the update prints its \<^verbatim>\<open>Downloaded\<close> line, the tree request (the first request of the
  call) was answered with a listing \<open>t\<close>, and the files below the folder at the end of the
  download loop (in the file system \<open>fmid\<close>) are exactly the blob paths of \<open>t\<close>, whatever
  was there before. The update returns with that file system when it holds no
  \<^verbatim>\<open>package.json\<close> in the folder, and otherwise with what \<^verbatim>\<open>npm install\<close>, run in the folder,
  has made of it.
\<close>

theorem update_mirrors_listing_before_npm:
  assumes "fs_existsSync (targetFolder E it) s"
  shows "handleUpdate E it s =
           handleDownload E it (snd (handleUninstall E it (console_log (MsgUpdating (name it)) s)))
       \<and> handleUpdate_cjs E it s =
           (case handleUninstall_cjs E it (console_log (MsgUpdating (name it)) s) of
              (Inl e, s1) \<Rightarrow> (Inl e, s1) | (Inr u, s1) \<Rightarrow> handleDownload E it s1)
       \<and> (MsgDownloaded (folder it) \<in> set (logged (emitted s (snd (handleUpdate E it s)))) \<longrightarrow>
            (\<exists>t fmid. tree_api E (reqs s) (apiUrl (repo it) (branch_of it)) = Inr t
               \<and> files_in fmid (targetFolder E it) = set (map epath (blobs t))
               \<and> fs (snd (handleUpdate E it s)) =
                   (if fmid (path_join (targetFolder E it) [''package.json'']) = None then fmid
                    else snd (npm E (targetFolder E it) fmid))))
       \<and> (MsgDownloaded (folder it) \<in> set (logged (emitted s (snd (handleUpdate_cjs E it s)))) \<longrightarrow>
            (\<exists>t fmid. tree_api E (reqs s) (apiUrl (repo it) (branch_of it)) = Inr t
               \<and> files_in fmid (targetFolder E it) = set (map epath (blobs t))
               \<and> fs (snd (handleUpdate_cjs E it s)) =
                   (if fmid (path_join (targetFolder E it) [''package.json'']) = None then fmid
                    else snd (npm E (targetFolder E it) fmid))))"
proof (intro conjI impI)
  let ?s0 = "console_log (MsgUpdating (name it)) s"
  have ex0: "fs_existsSync (targetFolder E it) ?s0" using assms by (simp add: fs_existsSync_def)
  note p = handleUninstall_post [OF ex0, of "folder it"]
  note q = handleUninstall_cjs_post [OF ex0, of "folder it"]
  obtain r0 s10 where un0: "handleUninstall E it ?s0 = (r0, s10)"
    by (cases "handleUninstall E it ?s0")
  have "r0 = Inr ()" using p un0 by simp
  then show u: "handleUpdate E it s = handleDownload E it (snd (handleUninstall E it ?s0))"
    using un0 by (simp add: handleUpdate_def)
  show "handleUpdate_cjs E it s =
           (case handleUninstall_cjs E it ?s0 of
              (Inl e, s1) \<Rightarrow> (Inl e, s1) | (Inr u, s1) \<Rightarrow> handleDownload E it s1)"
    by (simp add: handleUpdate_cjs_def)
  {
    assume d: "MsgDownloaded (folder it) \<in> set (logged (emitted s (snd (handleUpdate E it s))))"
    let ?s1 = "snd (handleUninstall E it ?s0)"
    from p obtain evs where e: "trace ?s1 = trace ?s0 @ evs" "MsgDownloaded (folder it) \<notin> set (logged evs)"
      by blast
    have 1: "trace ?s1 = trace s @ ([Log (MsgUpdating (name it))] @ evs)" using e(1) by simp
    have 2: "MsgDownloaded (folder it) \<notin> set (logged ([Log (MsgUpdating (name it))] @ evs))"
      using e(2) by simp
    have 3: "reqs ?s1 = reqs s" using p by simp
    have 4: "fs_existsSync (targetFolder E it) ?s1
             \<or> (\<forall>q. prefix (targetFolder E it) q \<longrightarrow> fs ?s1 q = None)"
      using p by blast
    from update_tail [OF 1 2 3 4] d
    show "\<exists>t fmid. tree_api E (reqs s) (apiUrl (repo it) (branch_of it)) = Inr t
               \<and> files_in fmid (targetFolder E it) = set (map epath (blobs t))
               \<and> fs (snd (handleUpdate E it s)) =
                   (if fmid (path_join (targetFolder E it) [''package.json'']) = None then fmid
                    else snd (npm E (targetFolder E it) fmid))"
      by (simp add: u)
  }
  {
    assume d: "MsgDownloaded (folder it) \<in> set (logged (emitted s (snd (handleUpdate_cjs E it s))))"
    obtain r s1 where un: "handleUninstall_cjs E it ?s0 = (r, s1)"
      by (cases "handleUninstall_cjs E it ?s0")
    from q un obtain evs where e: "trace s1 = trace ?s0 @ evs" "MsgDownloaded (folder it) \<notin> set (logged evs)"
      by auto
    have 1: "trace s1 = trace s @ ([Log (MsgUpdating (name it))] @ evs)" using e(1) by simp
    have 2: "MsgDownloaded (folder it) \<notin> set (logged ([Log (MsgUpdating (name it))] @ evs))"
      using e(2) by simp
    have 3: "reqs s1 = reqs s" using q un by simp
    have 4: "fs_existsSync (targetFolder E it) s1
             \<or> (\<forall>q. prefix (targetFolder E it) q \<longrightarrow> fs s1 q = None)"
      using q un by simp
    have ok: "handleUpdate_cjs E it s = handleDownload E it s1"
    proof (cases r)
      case (Inl err)
      then have "handleUpdate_cjs E it s = (Inl err, s1)" using un by (simp add: handleUpdate_cjs_def)
      with d 1 2 show ?thesis by (simp add: emitted_def)
    next
      case (Inr u)
      then show ?thesis using un by (simp add: handleUpdate_cjs_def)
    qed
    from update_tail [OF 1 2 3 4] d
    show "\<exists>t fmid. tree_api E (reqs s) (apiUrl (repo it) (branch_of it)) = Inr t
               \<and> files_in fmid (targetFolder E it) = set (map epath (blobs t))
               \<and> fs (snd (handleUpdate_cjs E it s)) =
                   (if fmid (path_join (targetFolder E it) [''package.json'']) = None then fmid
                    else snd (npm E (targetFolder E it) fmid))"
      by (simp add: ok)
  }
qed


theorem update_mirrors_listing_before_npm_witness:
  "fs_existsSync (targetFolder demo_env demo_item) installed_state
   \<and> MsgDownloaded [''demo''] \<in> set (logged (emitted installed_state
         (snd (handleUpdate demo_env demo_item installed_state))))
   \<and> files_in (fs (snd (handleUpdate demo_env demo_item installed_state))) [''app'', ''demo'']
        = {[''index.js''], [''src'', ''a.js'']}
   \<and> MsgDownloaded [''demo''] \<in> set (logged (emitted installed_state
         (snd (handleUpdate_cjs demo_env demo_item installed_state))))
   \<and> files_in (fs (snd (handleUpdate_cjs demo_env demo_item installed_state))) [''app'', ''demo'']
        = {[''index.js''], [''src'', ''a.js'']}"
proof -
  have h: "fs_existsSync (targetFolder demo_env demo_item) installed_state" by simp
  have d1: "MsgDownloaded (folder demo_item) \<in> set (logged (emitted installed_state
         (snd (handleUpdate demo_env demo_item installed_state))))"
    by (simp add: run_defs)
  have d2: "MsgDownloaded (folder demo_item) \<in> set (logged (emitted installed_state
         (snd (handleUpdate_cjs demo_env demo_item installed_state))))"
    by (simp add: run_defs)
  have t: "tree_api demo_env n u = Inr demo_tree" for n u by (simp add: demo_env_def)
  have n: "snd (npm demo_env d f) = f" for d f by (simp add: demo_env_def)
  have b: "set (map epath (blobs demo_tree)) = {[''index.js''], [''src'', ''a.js'']}"
    by (simp add: blobs_def demo_tree_def)
  have f: "folder demo_item = [''demo'']" by (simp add: demo_item_def)
  note upd = update_mirrors_listing_before_npm [OF h]
  from upd d1 obtain t1 fmid1 where
    1: "tree_api demo_env (reqs installed_state) (apiUrl (repo demo_item) (branch_of demo_item)) = Inr t1"
       "files_in fmid1 (targetFolder demo_env demo_item) = set (map epath (blobs t1))"
       "fs (snd (handleUpdate demo_env demo_item installed_state)) =
          (if fmid1 (path_join (targetFolder demo_env demo_item) [''package.json'']) = None then fmid1
           else snd (npm demo_env (targetFolder demo_env demo_item) fmid1))"
    by blast
  from upd d2 obtain t2 fmid2 where
    2: "tree_api demo_env (reqs installed_state) (apiUrl (repo demo_item) (branch_of demo_item)) = Inr t2"
       "files_in fmid2 (targetFolder demo_env demo_item) = set (map epath (blobs t2))"
       "fs (snd (handleUpdate_cjs demo_env demo_item installed_state)) =
          (if fmid2 (path_join (targetFolder demo_env demo_item) [''package.json'']) = None then fmid2
           else snd (npm demo_env (targetFolder demo_env demo_item) fmid2))"
    by blast
  have "t1 = demo_tree" "t2 = demo_tree" using 1(1) 2(1) by (simp_all add: t)
  then have "files_in (fs (snd (handleUpdate demo_env demo_item installed_state))) [''app'', ''demo'']
        = {[''index.js''], [''src'', ''a.js'']}"
    "files_in (fs (snd (handleUpdate_cjs demo_env demo_item installed_state))) [''app'', ''demo'']
        = {[''index.js''], [''src'', ''a.js'']}"
    using 1(2,3) 2(2,3) b by (simp_all add: n)
  then show ?thesis using h d1 d2 unfolding f by blast
qed

text \<open>
  C3 as stated fails where the repository holds a \<^verbatim>\<open>package.json\<close>: the update runs to its
  end, and the folder then also holds what \<^verbatim>\<open>npm install\<close> has written, here
  \<^verbatim>\<open>package-lock.json\<close>, which is no blob of the listing.
\<close>

theorem update_leaves_npm_files_counterexample:
  "fs_existsSync (targetFolder package_env demo_item) installed_state
   \<and> fst (handleUpdate package_env demo_item installed_state) = Inr ()
   \<and> logged (emitted installed_state (snd (handleUpdate package_env demo_item installed_state)))
        = [MsgUpdating ''Demo'', MsgUninstalled ''Demo'', MsgDownloading ''Demo'',
           MsgDownloaded [''demo''], MsgDetectedPackageJson, MsgNpmComplete]
   \<and> tree_api package_env (reqs installed_state) (apiUrl (repo demo_item) (branch_of demo_item))
        = Inr package_tree
   \<and> files_in (fs (snd (handleUpdate package_env demo_item installed_state)))
        (targetFolder package_env demo_item) \<noteq> set (map epath (blobs package_tree))"
proof -
  have lock: "fs (snd (handleUpdate package_env demo_item installed_state))
                 [''app'', ''demo'', ''package-lock.json''] = Some (File ''lock'')"
    by (simp add: run_defs package_env_def package_tree_def)
  then have "[''package-lock.json''] \<in> files_in (fs (snd (handleUpdate package_env demo_item installed_state)))
        (targetFolder package_env demo_item)"
    by (simp add: files_in_def)
  moreover have "[''package-lock.json''] \<notin> set (map epath (blobs package_tree))"
    by (simp add: blobs_def package_tree_def)
  ultimately have ne: "files_in (fs (snd (handleUpdate package_env demo_item installed_state)))
        (targetFolder package_env demo_item) \<noteq> set (map epath (blobs package_tree))"
    by blast
  have r: "fst (handleUpdate package_env demo_item installed_state) = Inr ()"
    by (simp add: run_defs package_env_def package_tree_def)
  have l: "logged (emitted installed_state (snd (handleUpdate package_env demo_item installed_state)))
        = [MsgUpdating ''Demo'', MsgUninstalled ''Demo'', MsgDownloading ''Demo'',
           MsgDownloaded [''demo''], MsgDetectedPackageJson, MsgNpmComplete]"
    by (simp add: run_defs package_env_def package_tree_def)
  have t: "tree_api package_env (reqs installed_state) (apiUrl (repo demo_item) (branch_of demo_item))
        = Inr package_tree"
    by (simp add: package_env_def)
  show ?thesis using ne r l t by simp
qed

end
